theory Spec2Isabelle
  imports Complex_Main "HOL-Library.AList" "HOL-Library.Word"
begin

unbundle bit_operations_syntax

section \<open>JavaScript maps\<close>

text \<open>
  A JavaScript \<open>Map\<close> iterates in insertion order, \<open>set\<close> on a key that is present
  replaces the value where it stands, and \<open>delete\<close> removes the binding. Such a map is
  an association list in insertion order: \<open>map_of\<close> is \<open>get\<close>, \<open>AList.update\<close> is
  \<open>set\<close> and \<open>AList.delete\<close> is \<open>delete\<close>.
\<close>

type_synonym ('k, 'v) jsmap = "('k \<times> 'v) list"

section \<open>Query cache (query/cache.ts)\<close>

text \<open>
  The field \<open>value\<close> of the source's \<open>CacheEntry\<close> is \<open>entry_value\<close> here, and
  \<open>version\<close> is \<open>entry_version\<close>. \<open>Date.now()\<close> is the argument \<open>now\<close>
  (milliseconds). A miss (\<open>undefined\<close>) is \<open>None\<close>.
\<close>

record 'v CacheEntry =
  entry_value :: 'v
  expiresAt :: int
  entry_version :: string

record 'v QueryCache =
  cache :: "(string, 'v CacheEntry) jsmap"
  maxEntries :: int

definition new_QueryCache :: "int option \<Rightarrow> 'v QueryCache" where
  "new_QueryCache m = \<lparr>cache = [], maxEntries = (case m of None \<Rightarrow> 10000 | Some n \<Rightarrow> n)\<rparr>"

definition cache_get :: "'v QueryCache \<Rightarrow> string \<Rightarrow> string \<Rightarrow> int \<Rightarrow> 'v QueryCache \<times> 'v option" where
  "cache_get qc key ver now =
     (case map_of (cache qc) key of
        None \<Rightarrow> (qc, None)
      | Some entry \<Rightarrow>
          if expiresAt entry < now then (qc\<lparr>cache := AList.delete key (cache qc)\<rparr>, None)
          else if entry_version entry \<noteq> ver then (qc\<lparr>cache := AList.delete key (cache qc)\<rparr>, None)
          else (qc, Some (entry_value entry)))"

definition cache_size :: "'v QueryCache \<Rightarrow> int" where
  "cache_size qc = int (length (cache qc))"

text \<open>
  \<open>evict\<close> first deletes every expired entry, then, if the map is still full, the first
  \<open>Math.floor(maxEntries * 0.1)\<close> keys in insertion order. For an integer \<open>maxEntries\<close>
  that floor is \<open>maxEntries div 10\<close>; a negative count deletes nothing.
\<close>

definition evict :: "'v QueryCache \<Rightarrow> int \<Rightarrow> 'v QueryCache" where
  "evict qc now =
     (let live = filter (\<lambda>(k, entry). \<not> expiresAt entry < now) (cache qc)
      in if int (length live) \<ge> maxEntries qc
         then qc\<lparr>cache := drop (nat (maxEntries qc div 10)) live\<rparr>
         else qc\<lparr>cache := live\<rparr>)"

definition cache_set :: "'v QueryCache \<Rightarrow> string \<Rightarrow> 'v \<Rightarrow> int \<Rightarrow> string \<Rightarrow> int \<Rightarrow> 'v QueryCache" where
  "cache_set qc key v ttlSeconds ver now =
     (let qc1 = (if cache_size qc \<ge> maxEntries qc then evict qc now else qc)
      in qc1\<lparr>cache := AList.update key
            \<lparr>entry_value = v, expiresAt = now + ttlSeconds * 1000, entry_version = ver\<rparr>
            (cache qc1)\<rparr>)"

definition invalidateByPrefix :: "'v QueryCache \<Rightarrow> string \<Rightarrow> 'v QueryCache" where
  "invalidateByPrefix qc pre =
     qc\<lparr>cache := filter (\<lambda>(k, entry). \<not> (take (length pre) k = pre)) (cache qc)\<rparr>"

definition invalidateAll :: "'v QueryCache \<Rightarrow> 'v QueryCache" where
  "invalidateAll qc = qc\<lparr>cache := []\<rparr>"

section \<open>Traffic shaper (gateway/traffic-shaper.ts)\<close>

record ResourceRef =
  did :: string
  cid :: string

record TrafficRule =
  deploy :: ResourceRef
  weight :: int

record TrafficShaper =
  rules :: "TrafficRule list"

text \<open>The two errors \<open>updateRules\<close> throws, each with the number its message prints.\<close>

datatype shaper_error = SumNotTotal int | WeightOutOfRange int

definition TOTAL_BASIS_POINTS :: int where
  "TOTAL_BASIS_POINTS = 10000"

definition total_weight :: "TrafficRule list \<Rightarrow> int" where
  "total_weight rs = foldl (\<lambda>sum r. sum + weight r) 0 rs"

text \<open>
  \<open>updateRules\<close> returns the shaper after the call and the error thrown, if any. The
  stored list is the argument sorted by weight, largest first, by a stable sort
  (\<open>Array.prototype.sort\<close> is stable, as \<open>sort_key\<close> is).
\<close>

definition updateRules :: "TrafficShaper \<Rightarrow> TrafficRule list \<Rightarrow> TrafficShaper \<times> shaper_error option" where
  "updateRules sh rs =
     (if length rs = 0 then (sh\<lparr>rules := []\<rparr>, None)
      else let total = total_weight rs in
        if total \<noteq> TOTAL_BASIS_POINTS then (sh, Some (SumNotTotal total))
        else (case find (\<lambda>r. weight r < 0 \<or> weight r > TOTAL_BASIS_POINTS) rs of
                Some r \<Rightarrow> (sh, Some (WeightOutOfRange (weight r)))
              | None \<Rightarrow> (sh\<lparr>rules := sort_key (\<lambda>r. - weight r) rs\<rparr>, None)))"

text \<open>
  A JavaScript string is a sequence of UTF-16 code units, which \<open>charCodeAt\<close> reads.
  \<open>hashToRange\<close> keeps its hash in a signed 32-bit integer (\<open>| 0\<close>) and reads it
  unsigned at the end (\<open>>>> 0\<close>): arithmetic on \<open>32 word\<close>, read by \<open>unat\<close>.
\<close>

type_synonym utf16 = "16 word list"

definition utf16_of :: "string \<Rightarrow> utf16" where
  "utf16_of s = map of_char s"

definition hashToRange :: "utf16 \<Rightarrow> int" where
  "hashToRange key =
     int (unat (foldl (\<lambda>(hash :: 32 word) c. push_bit 5 hash + hash + ucast c) 5381 key))
       mod TOTAL_BASIS_POINTS"

text \<open>The loop of \<open>selectDeploy\<close> over the rules; \<open>None\<close> when it falls through.\<close>

fun walk_rules :: "TrafficRule list \<Rightarrow> int \<Rightarrow> int \<Rightarrow> ResourceRef option" where
  "walk_rules [] cumulative v = None"
| "walk_rules (rule # rest) cumulative v =
     (if v < cumulative + weight rule then Some (deploy rule)
      else walk_rules rest (cumulative + weight rule) v)"

text \<open>
  \<open>selectDeploy\<close> takes the sticky key, if any, and \<open>rnd\<close>, the value that
  \<open>Math.floor(Math.random() * TOTAL_BASIS_POINTS)\<close> yields when it is evaluated.
  \<open>null\<close> is \<open>None\<close>.
\<close>

definition selectDeploy :: "TrafficShaper \<Rightarrow> utf16 option \<Rightarrow> int \<Rightarrow> ResourceRef option" where
  "selectDeploy sh stickyKey rnd =
     (if length (rules sh) = 0 then None
      else if length (rules sh) = 1 then Some (deploy (rules sh ! 0))
      else let v = (case stickyKey of Some key \<Rightarrow> hashToRange key | None \<Rightarrow> rnd) in
        (case walk_rules (rules sh) 0 v of
           Some d \<Rightarrow> Some d
         | None \<Rightarrow> Some (deploy (rules sh ! (length (rules sh) - 1)))))"

definition getRules :: "TrafficShaper \<Rightarrow> TrafficRule list" where
  "getRules sh = rules sh"

section \<open>JavaScript values\<close>

text \<open>
  The values the modelled code handles are those of JSON documents, and \<open>undefined\<close>.
  A number is a finite value, the negative zero, \<open>NaN\<close> or an infinity; \<open>Finite 0\<close>
  is the positive zero. An object is the list of its own properties, in insertion order,
  with distinct keys; a property read takes the first binding of the key.
\<close>

datatype jsnum = Finite rat | NegZero | NaN | PosInf | NegInf

datatype jsval =
    JUndefined
  | JNull
  | JBool bool
  | JNum jsnum
  | JStr string
  | JArr "jsval list"
  | JObj "(string \<times> jsval) list"

datatype js_error = Error string | TypeError string | SyntaxError string

definition nullish :: "jsval \<Rightarrow> bool" where
  "nullish v = (v = JUndefined \<or> v = JNull)"

text \<open>\<open>s.split(sep)\<close> for a separator of one character.\<close>

fun split_on :: "char \<Rightarrow> string \<Rightarrow> string list" where
  "split_on sep [] = [[]]"
| "split_on sep (c # cs) =
     (if c = sep then [] # split_on sep cs
      else (case split_on sep cs of
              [] \<Rightarrow> [[c]]
            | w # ws \<Rightarrow> (c # w) # ws))"


section \<open>Authentication (gateway/auth.ts)\<close>














section \<open>Dependency graph (deploy/dependency-graph.ts)\<close>

text \<open>
  The kinds \<open>computed\<close>, \<open>function\<close>, \<open>searchIndex\<close>, \<open>subscription\<close> and
  \<open>collection\<close>. The fields of \<open>Dependency\<close>, \<open>DependencyNode\<close> and
  \<open>DeployedEndpoint\<close> carry a prefix, since several of the source's interfaces share
  the names \<open>name\<close>, \<open>kind\<close> and \<open>ref\<close>. \<open>code_link\<close> is what the manifest builder
  reads as \<open>node.record?.code?.ref?.$link\<close>, \<open>None\<close> when that value is falsy.
\<close>

datatype kind = KComputed | KFunction | KSearchIndex | KSubscription | KCollection

record Dependency =
  dep_name :: string
  dep_kind :: kind
  dep_ref :: "ResourceRef option"
  dep_collection :: "string option"

record DependencyNode =
  node_ref :: ResourceRef
  node_kind :: kind
  dependencies :: "Dependency list"
  code_link :: "string option"

record DeployedEndpoint =
  ep_name :: string
  ep_kind :: kind
  ep_ref :: ResourceRef

record DependencyGraph =
  graph_endpoints :: "DeployedEndpoint list"
  nodes :: "(string, DependencyNode) jsmap"
  order :: "string list"

definition refKey :: "ResourceRef \<Rightarrow> string" where
  "refKey r = did r @ '':'' @ cid r"

text \<open>
  The references a node's loops follow: those of the dependencies with a \<open>ref\<close> and a
  kind other than \<open>collection\<close>, in order.
\<close>

definition resource_deps :: "DependencyNode \<Rightarrow> ResourceRef list" where
  "resource_deps node =
     concat (map (\<lambda>dep. case dep_ref dep of
                           None \<Rightarrow> []
                         | Some r \<Rightarrow> if dep_kind dep \<noteq> KCollection then [r] else [])
                 (dependencies node))"

text \<open>
  The breadth-first loop of \<open>build\<close>: the queue, the set \<open>visited\<close> (only membership
  is read) and the map \<open>nodes\<close>. The resolver is any function, so the loop need not end:
  \<open>None\<close> is a run that never leaves the loop.
\<close>

partial_function (option) discover ::
  "(ResourceRef \<Rightarrow> DependencyNode option) \<Rightarrow> ResourceRef list \<Rightarrow> string list
     \<Rightarrow> (string, DependencyNode) jsmap \<Rightarrow> (string, DependencyNode) jsmap option" where
  "discover resolveNode queue visited ns =
     (case queue of
        [] \<Rightarrow> Some ns
      | r # rest \<Rightarrow>
          if refKey r \<in> set visited then discover resolveNode rest visited ns
          else (case resolveNode r of
                  None \<Rightarrow> discover resolveNode rest (refKey r # visited) ns
                | Some node \<Rightarrow>
                    discover resolveNode (rest @ resource_deps node) (refKey r # visited)
                      (AList.update (refKey r) node ns)))"

lemma card_unmarked_less:
  assumes "map_of ns key = Some node" and "key \<notin> set tempMarked"
  shows "card (fst ` set ns - set (key # tempMarked)) < card (fst ` set ns - set tempMarked)"
proof -
  have "key \<in> fst ` set ns" using assms(1) by (metis map_of_eq_None_iff option.distinct(1))
  then have "fst ` set ns - set (key # tempMarked) \<subset> fst ` set ns - set tempMarked"
    using assms(2) by auto
  then show ?thesis by (simp add: psubset_card_mono)
qed

text \<open>
  The closure \<open>visit\<close> of the topological sort. Its state is the pair of \<open>permMarked\<close>
  and \<open>sorted\<close>. \<open>tempMarked\<close> holds the keys of the calls in progress: \<open>visit\<close>
  adds its key before the loop and deletes it after, so the set is an argument that grows
  on the way down.
\<close>

function visit ::
    "(string, DependencyNode) jsmap \<Rightarrow> string list \<Rightarrow> string
       \<Rightarrow> string list \<times> string list \<Rightarrow> string list \<times> string list"
  and visit_deps ::
    "(string, DependencyNode) jsmap \<Rightarrow> string list \<Rightarrow> ResourceRef list
       \<Rightarrow> string list \<times> string list \<Rightarrow> string list \<times> string list" where
  "visit ns tempMarked key st =
     (if key \<in> set (fst st) then st
      else if key \<in> set tempMarked then st
      else (case map_of ns key of
              None \<Rightarrow> (key # fst st, snd st @ [key])
            | Some node \<Rightarrow>
                (case visit_deps ns (key # tempMarked) (resource_deps node) st of
                   (permMarked, sorted_keys) \<Rightarrow> (key # permMarked, sorted_keys @ [key]))))"
| "visit_deps ns tempMarked [] st = st"
| "visit_deps ns tempMarked (r # rs) st =
     visit_deps ns tempMarked rs (visit ns tempMarked (refKey r) st)"
  by pat_completeness auto

termination
  by (relation "inv_image (less_than <*lex*> less_than)
        (\<lambda>x. case x of
           Inl (ns, tempMarked, key, st) \<Rightarrow> (card (fst ` set ns - set tempMarked), 0)
         | Inr (ns, tempMarked, rs, st) \<Rightarrow> (card (fst ` set ns - set tempMarked), Suc (length rs)))")
     (auto simp: card_unmarked_less simp del: set_simps)

declare visit.simps [simp del]

definition topological_sort :: "(string, DependencyNode) jsmap \<Rightarrow> string list" where
  "topological_sort ns = snd (foldl (\<lambda>st key. visit ns [] key st) ([], []) (map fst ns))"

definition DependencyGraphBuilder_build ::
  "DeployedEndpoint list \<Rightarrow> (ResourceRef \<Rightarrow> DependencyNode option) \<Rightarrow> DependencyGraph option" where
  "DependencyGraphBuilder_build endpoints resolveNode =
     (case discover resolveNode (map ep_ref endpoints) [] [] of
        None \<Rightarrow> None
      | Some ns \<Rightarrow> Some \<lparr>graph_endpoints = endpoints, nodes = ns, order = topological_sort ns\<rparr>)"

text \<open>The three error messages of \<open>validate\<close>, each with the names it prints.\<close>

datatype validation_error =
    UnknownResource string string
  | UnresolvedDependency string string
  | MissingCollection string string

definition validate :: "DependencyGraph \<Rightarrow> validation_error list" where
  "validate graph =
     concat (map (\<lambda>endpoint.
                if map_of (nodes graph) (refKey (ep_ref endpoint)) = None
                then [UnknownResource (ep_name endpoint) (refKey (ep_ref endpoint))] else [])
             (graph_endpoints graph))
     @ concat (map (\<lambda>(key, node).
          concat (map (\<lambda>dep.
              (case dep_ref dep of
                 None \<Rightarrow> []
               | Some r \<Rightarrow>
                   if dep_kind dep \<noteq> KCollection \<and> map_of (nodes graph) (refKey r) = None
                   then [UnresolvedDependency key (refKey r)] else [])
              @ (if dep_kind dep = KCollection
                    \<and> (dep_collection dep = None \<or> dep_collection dep = Some [])
                 then [MissingCollection key (dep_name dep)] else []))
            (dependencies node)))
        (nodes graph))"

section \<open>Manifest builder (deploy/manifest.ts)\<close>

text \<open>
  Of the fetcher, \<open>build\<close> calls \<open>getBlob\<close> only; a rejected promise is \<open>Inl\<close>. The
  fields \<open>version\<close> and \<open>endpoints\<close> of the manifest and of the deploy record carry a
  prefix. \<open>new Date().toISOString()\<close> is the argument \<open>now\<close>.
\<close>

record RecordFetcher =
  getBlob :: "string \<Rightarrow> string \<Rightarrow> js_error + 8 word list"

record ResolvedResource =
  res_ref :: ResourceRef
  res_kind :: kind
  res_record :: DependencyNode
  res_dependencies :: "Dependency list"
  codeBlob :: "8 word list option"

record DeployRecord =
  record_version :: "string option"
  record_description :: "string option"
  record_endpoints :: "DeployedEndpoint list"
  record_createdAt :: string

record DeployManifest =
  deployRef :: ResourceRef
  manifest_version :: "string option"
  manifest_endpoints :: "DeployedEndpoint list"
  resources :: "(string, ResolvedResource) jsmap"
  resolvedAt :: int

definition resolve_node :: "RecordFetcher \<Rightarrow> DependencyNode \<Rightarrow> ResolvedResource" where
  "resolve_node fetcher node =
     \<lparr>res_ref = node_ref node, res_kind = node_kind node, res_record = node,
      res_dependencies = dependencies node,
      codeBlob =
        (if node_kind node = KFunction then
           (case code_link node of
              None \<Rightarrow> None
            | Some codeRef \<Rightarrow>
                (case getBlob fetcher (did (node_ref node)) codeRef of
                   Inl err \<Rightarrow> None
                 | Inr blob \<Rightarrow> Some blob))
         else None)\<rparr>"

definition resolve_all ::
  "RecordFetcher \<Rightarrow> DependencyGraph \<Rightarrow> (string, ResolvedResource) jsmap" where
  "resolve_all fetcher graph =
     foldl (\<lambda>res key. case map_of (nodes graph) key of
                          None \<Rightarrow> res
                        | Some node \<Rightarrow> AList.update key (resolve_node fetcher node) res)
           [] (order graph)"

text \<open>
  \<open>ManifestBuilder.build\<close>: \<open>None\<close> when the graph builder never returns, \<open>Inl\<close> the
  validation errors it throws, \<open>Inr\<close> the manifest.
\<close>

definition ManifestBuilder_build ::
  "ResourceRef \<Rightarrow> DeployRecord \<Rightarrow> RecordFetcher \<Rightarrow> (ResourceRef \<Rightarrow> DependencyNode option)
     \<Rightarrow> int \<Rightarrow> (validation_error list + DeployManifest) option" where
  "ManifestBuilder_build dref deployRecord fetcher nodeResolver now =
     (case DependencyGraphBuilder_build (record_endpoints deployRecord) nodeResolver of
        None \<Rightarrow> None
      | Some graph \<Rightarrow>
          if length (validate graph) > 0 then Some (Inl (validate graph))
          else Some (Inr \<lparr>deployRef = dref, manifest_version = record_version deployRecord,
                           manifest_endpoints = record_endpoints deployRecord,
                           resources = resolve_all fetcher graph, resolvedAt = now\<rparr>))"

section \<open>Deploy orchestrator (deploy/orchestrator.ts)\<close>

text \<open>
  The fields \<open>ref\<close>, \<open>manifest\<close> and \<open>error\<close> of the source's
  \<open>DeployStatus\<close> are \<open>status_ref\<close>, \<open>status_manifest\<close> and \<open>status_error\<close>; the error holds the validation errors that the
  message of the thrown \<open>Error\<close> joins. The orchestrator's map \<open>deploys\<close> is keyed by
  \<open>refKey\<close>. The clock readings of one operation are its argument \<open>now\<close>. The
  callback \<open>onDeployStateChange\<close> is taken to return normally and is left out. The
  options \<open>fetcher\<close> and \<open>nodeResolver\<close> are \<open>options_fetcher\<close> and
  \<open>options_nodeResolver\<close>.
\<close>

datatype DeployState =
  PENDING | FETCHING | RESOLVING | BUILDING | ACTIVATING | ACTIVE | DRAINING | RETIRED | FAILED

record DeployStatus =
  status_ref :: ResourceRef
  state :: DeployState
  status_manifest :: "DeployManifest option"
  status_error :: "validation_error list option"
  activatedAt :: "int option"
  retiredAt :: "int option"

record OrchestratorOptions =
  options_fetcher :: RecordFetcher
  options_nodeResolver :: "ResourceRef \<Rightarrow> DependencyNode option"
  maxActiveDeploys :: "int option"

type_synonym deploys = "(string, DeployStatus) jsmap"

definition setState ::
  "deploys \<Rightarrow> ResourceRef \<Rightarrow> DeployState \<Rightarrow> DeployManifest option \<Rightarrow> int \<Rightarrow> deploys" where
  "setState ds r st m now =
     (let status = (case map_of ds (refKey r) of
                      None \<Rightarrow> \<lparr>status_ref = r, state = st, status_manifest = None, status_error = None,
                                activatedAt = None, retiredAt = None\<rparr>
                    | Some s \<Rightarrow> s)
      in AList.update (refKey r)
           (status\<lparr>state := st,
                   status_manifest := (case m of None \<Rightarrow> status_manifest status | Some x \<Rightarrow> Some x),
                   activatedAt := (if st = ACTIVE then Some now else activatedAt status),
                   retiredAt := (if st = RETIRED then Some now else retiredAt status)\<rparr>)
           ds)"

definition getDeployStatus :: "deploys \<Rightarrow> ResourceRef \<Rightarrow> DeployStatus option" where
  "getDeployStatus ds r = map_of ds (refKey r)"

definition getActiveDeploys :: "deploys \<Rightarrow> DeployStatus list" where
  "getActiveDeploys ds = filter (\<lambda>d. state d = ACTIVE) (map snd ds)"

definition getAllDeploys :: "deploys \<Rightarrow> DeployStatus list" where
  "getAllDeploys ds = map snd ds"

text \<open>\<open>this.options.maxActiveDeploys ?? 2\<close>.\<close>

definition max_active :: "OrchestratorOptions \<Rightarrow> int" where
  "max_active opts = (case maxActiveDeploys opts of None \<Rightarrow> 2 | Some k \<Rightarrow> k)"

text \<open>The block of \<open>processDeploy\<close> under the comment \<open>Drain old deploys if at max\<close>.\<close>

definition drain_oldest :: "OrchestratorOptions \<Rightarrow> deploys \<Rightarrow> int \<Rightarrow> deploys" where
  "drain_oldest opts ds now =
     (let activeDeploys = filter (\<lambda>d. state d = ACTIVE) (map snd ds) in
      if int (length activeDeploys) \<ge> max_active opts then
        (case activeDeploys of
           [] \<Rightarrow> ds
         | oldest # rest \<Rightarrow> setState ds (status_ref oldest) DRAINING None now)
      else ds)"

text \<open>The \<open>catch\<close> block of \<open>processDeploy\<close>.\<close>

definition set_failed :: "deploys \<Rightarrow> string \<Rightarrow> validation_error list \<Rightarrow> deploys" where
  "set_failed ds key msg =
     AList.map_entry key (\<lambda>status. status\<lparr>state := FAILED, status_error := Some msg\<rparr>) ds"

text \<open>
  \<open>processDeploy\<close>, given what \<open>manifestBuilder.build\<close> yields: the map \<open>deploys\<close>
  after each statement that writes it, in order. The last one is the map when the call
  returns.
\<close>

definition processDeploy_steps ::
  "OrchestratorOptions \<Rightarrow> deploys \<Rightarrow> ResourceRef \<Rightarrow> validation_error list + DeployManifest
     \<Rightarrow> int \<Rightarrow> deploys list" where
  "processDeploy_steps opts ds r outcome now =
     (let s1 = setState ds r PENDING None now;
          s2 = setState s1 r FETCHING None now;
          s3 = setState s2 r RESOLVING None now;
          s4 = setState s3 r BUILDING None now
      in case outcome of
           Inl msg \<Rightarrow> [s1, s2, s3, s4, set_failed s4 (refKey r) msg]
         | Inr m \<Rightarrow>
             (let s5 = setState s4 r ACTIVATING (Some m) now;
                  s6 = drain_oldest opts s5 now;
                  s7 = setState s6 r ACTIVE (Some m) now
              in [s1, s2, s3, s4, s5, s6, s7]))"

definition processDeploy ::
  "OrchestratorOptions \<Rightarrow> deploys \<Rightarrow> ResourceRef \<Rightarrow> DeployRecord \<Rightarrow> int \<Rightarrow> deploys list option" where
  "processDeploy opts ds r deployRecord now =
     (case ManifestBuilder_build r deployRecord (options_fetcher opts) (options_nodeResolver opts) now of
        None \<Rightarrow> None
      | Some outcome \<Rightarrow> Some (processDeploy_steps opts ds r outcome now))"

definition retireDeploy :: "deploys \<Rightarrow> ResourceRef \<Rightarrow> int \<Rightarrow> deploys list" where
  "retireDeploy ds r now =
     (let s1 = setState ds r DRAINING None now;
          s2 = setState s1 r RETIRED None now
      in [s1, s2])"

definition processAppView :: "TrafficRule list \<Rightarrow> ResourceRef list" where
  "processAppView trafficRules = map deploy trafficRules"

text \<open>
  A sequence of orchestrator operations, each with its clock reading, and the maps
  \<open>deploys\<close> it goes through, in order. \<open>None\<close> when a manifest build never returns.
\<close>

datatype orch_op = ProcessDeploy ResourceRef DeployRecord int | RetireDeploy ResourceRef int

fun op_steps :: "OrchestratorOptions \<Rightarrow> deploys \<Rightarrow> orch_op \<Rightarrow> deploys list option" where
  "op_steps opts ds (ProcessDeploy r deployRecord now) = processDeploy opts ds r deployRecord now"
| "op_steps opts ds (RetireDeploy r now) = Some (retireDeploy ds r now)"

fun run_ops :: "OrchestratorOptions \<Rightarrow> deploys \<Rightarrow> orch_op list \<Rightarrow> deploys list option" where
  "run_ops opts ds [] = Some []"
| "run_ops opts ds (x # xs) =
     (case op_steps opts ds x of
        None \<Rightarrow> None
      | Some tr \<Rightarrow>
          (case run_ops opts (last (ds # tr)) xs of
             None \<Rightarrow> None
           | Some tr' \<Rightarrow> Some (tr @ tr')))"


text \<open>The state the orchestrator holds for a key, \<open>None\<close> when it holds none.\<close>

definition state_of :: "deploys \<Rightarrow> string \<Rightarrow> DeployState option" where
  "state_of ds key = map_option state (map_of ds key)"

text \<open>
  The order of the state machine: \<open>forward s s'\<close> when \<open>s'\<close> is \<open>s\<close>, or \<open>s\<close> is
  neither \<open>RETIRED\<close> nor \<open>FAILED\<close> and \<open>s'\<close> is \<open>FAILED\<close> or a later state of the
  chain from \<open>PENDING\<close> to \<open>RETIRED\<close>. A deploy without a status is before every state.
\<close>

fun state_rank :: "DeployState \<Rightarrow> nat" where
  "state_rank PENDING = 0"
| "state_rank FETCHING = 1"
| "state_rank RESOLVING = 2"
| "state_rank BUILDING = 3"
| "state_rank ACTIVATING = 4"
| "state_rank ACTIVE = 5"
| "state_rank DRAINING = 6"
| "state_rank RETIRED = 7"
| "state_rank FAILED = 8"

definition forward :: "DeployState \<Rightarrow> DeployState \<Rightarrow> bool" where
  "forward s s' = (s = s' \<or> (s \<noteq> RETIRED \<and> s \<noteq> FAILED \<and> state_rank s < state_rank s'))"

fun forward_opt :: "DeployState option \<Rightarrow> DeployState option \<Rightarrow> bool" where
  "forward_opt None s' = True"
| "forward_opt (Some s) None = False"
| "forward_opt (Some s) (Some s') = forward s s'"

definition states_forward :: "deploys \<Rightarrow> deploys \<Rightarrow> bool" where
  "states_forward ds ds' = (\<forall>key. forward_opt (state_of ds key) (state_of ds' key))"

text \<open>
  An operation is fresh for a map when it is a \<open>processDeploy\<close> of a ref the map has no
  status for, or a \<open>retireDeploy\<close> of a ref that is neither \<open>RETIRED\<close> nor \<open>FAILED\<close>.
\<close>

fun fresh_op :: "deploys \<Rightarrow> orch_op \<Rightarrow> bool" where
  "fresh_op ds (ProcessDeploy r deployRecord now) = (map_of ds (refKey r) = None)"
| "fresh_op ds (RetireDeploy r now) =
     (state_of ds (refKey r) \<noteq> Some RETIRED \<and> state_of ds (refKey r) \<noteq> Some FAILED)"

fun fresh_ops :: "OrchestratorOptions \<Rightarrow> deploys \<Rightarrow> orch_op list \<Rightarrow> bool" where
  "fresh_ops opts ds [] = True"
| "fresh_ops opts ds (x # xs) =
     (fresh_op ds x \<and>
      (case op_steps opts ds x of
         None \<Rightarrow> True
       | Some tr \<Rightarrow> fresh_ops opts (last (ds # tr)) xs))"

text \<open>
  What every map \<open>deploys\<close> satisfies that the orchestrator reaches: distinct keys, each
  the \<open>refKey\<close> of the ref its status holds. \<open>active_keys\<close> are the keys of the
  deploys in state \<open>ACTIVE\<close>.
\<close>

definition wf_deploys :: "deploys \<Rightarrow> bool" where
  "wf_deploys ds =
     (distinct (map fst ds) \<and> (\<forall>key s. map_of ds key = Some s \<longrightarrow> key = refKey (status_ref s)))"

definition active_keys :: "deploys \<Rightarrow> string set" where
  "active_keys ds = {key. state_of ds key = Some ACTIVE}"








section \<open>Query language (shared/types/lexicon.ts)\<close>

text \<open>
  The operators of \<open>Comparison\<close>, \<open>LogicalOp\<close> and \<open>ArithmeticOp\<close> and the name of a
  \<open>BuiltinCall\<close> are strings, as they arrive in a record, so that the \<open>default\<close>
  branches of the engine are branches of the model; \<open>UnknownExpression\<close> is an
  expression whose \<open>type\<close> is none of the eight. An absent optional field is \<open>None\<close>.
  The numbers of a record are integers.
\<close>

datatype Expression =
    FieldRef string string
  | Literal "string option" "int option" "bool option"
  | Comparison string Expression "Expression option"
  | LogicalOp string "Expression list"
  | ArithmeticOp string Expression Expression
  | BuiltinCall string "Expression list"
  | FunctionCall ResourceRef "Expression list"
  | CaseExpression "(Expression \<times> Expression) list" "Expression option"
  | UnknownExpression string

record Source =
  source_alias :: string
  source_collection :: string
  source_did :: "string option"

record SelectField =
  field_alias :: string
  field_value :: Expression

record JoinClause =
  joinType :: string
  join_source :: Source
  join_on :: Expression

record OrderByClause =
  order_value :: Expression
  order_direction :: string
  order_nulls :: "string option"

record Query =
  query_select :: "SelectField list"
  query_from :: Source
  query_joins :: "JoinClause list option"
  query_where :: "Expression option"
  query_groupBy :: "Expression list option"
  query_having :: "Expression option"
  query_orderBy :: "OrderByClause list option"
  query_limit :: "int option"
  query_offset :: "int option"
  query_distinct :: "bool option"

section \<open>Query planner (query/planner.ts)\<close>

record SourcePlan =
  plan_alias :: string
  plan_source :: Source
  isJoined :: bool

datatype PipelineStep =
    Fetch string
  | Join string string Expression
  | Filter Expression
  | Group "Expression list"
  | Having Expression
  | Select "SelectField list"
  | Distinct
  | OrderBy "OrderByClause list"
  | Limit int "int option"

record QueryPlan =
  sources :: "SourcePlan list"
  pipeline :: "PipelineStep list"

text \<open>
  \<open>plan\<close>. A condition of the source on an optional field is the field's truthiness:
  an array, also an empty one, and an expression are truthy; \<open>groupBy?.length\<close> and
  \<open>orderBy?.length\<close> are truthy for a non-empty array; \<open>distinct\<close> for \<open>true\<close>;
  \<open>limit\<close> for a number other than 0.
\<close>

definition plan :: "Query \<Rightarrow> QueryPlan" where
  "plan query =
     \<lparr>sources =
        \<lparr>plan_alias = source_alias (query_from query), plan_source = query_from query,
          isJoined = False\<rparr>
        # (case query_joins query of
             None \<Rightarrow> []
           | Some joins \<Rightarrow>
               map (\<lambda>j. \<lparr>plan_alias = source_alias (join_source j), plan_source = join_source j,
                           isJoined = True\<rparr>) joins),
      pipeline =
        [Fetch (source_alias (query_from query))]
        @ (case query_joins query of
             None \<Rightarrow> []
           | Some joins \<Rightarrow>
               map (\<lambda>j. Join (joinType j) (source_alias (join_source j)) (join_on j)) joins)
        @ (case query_where query of None \<Rightarrow> [] | Some e \<Rightarrow> [Filter e])
        @ (case query_groupBy query of
             None \<Rightarrow> []
           | Some es \<Rightarrow> if length es \<noteq> 0 then [Group es] else [])
        @ (case query_having query of None \<Rightarrow> [] | Some e \<Rightarrow> [Having e])
        @ [Select (map (\<lambda>f. \<lparr>field_alias = field_alias f, field_value = field_value f\<rparr>)
                     (query_select query))]
        @ (if query_distinct query = Some True then [Distinct] else [])
        @ (case query_orderBy query of
             None \<Rightarrow> []
           | Some os \<Rightarrow>
               if length os \<noteq> 0
               then [OrderBy (map (\<lambda>c. \<lparr>order_value = order_value c,
                                         order_direction = order_direction c,
                                         order_nulls = order_nulls c\<rparr>) os)]
               else [])
        @ (case query_limit query of
             None \<Rightarrow> []
           | Some n \<Rightarrow> if n \<noteq> 0 then [Limit n (query_offset query)] else [])\<rparr>"

section \<open>The platform under the query engine\<close>

text \<open>
  The operators and library functions of JavaScript that \<open>engine.ts\<close> applies to values
  are parameters of the model, the fields of \<open>JsRuntime\<close>; they are total on the values
  of \<open>jsval\<close>, but for \<open>new RegExp\<close>, which throws on a pattern that is not a regular
  expression. \<open>same_object\<close> decides \<open>===\<close> between two arrays or two objects, which
  compares identities; \<open>prim_member\<close> reads a property of a value that is not an object of
  \<open>jsval\<close>; \<open>JSON_stringify\<close> yields \<open>None\<close> for \<open>undefined\<close>.
\<close>

record JsRuntime =
  same_object :: "jsval \<Rightarrow> jsval \<Rightarrow> bool"
  prim_member :: "jsval \<Rightarrow> string \<Rightarrow> jsval"
  js_lt :: "jsval \<Rightarrow> jsval \<Rightarrow> bool"
  js_le :: "jsval \<Rightarrow> jsval \<Rightarrow> bool"
  js_gt :: "jsval \<Rightarrow> jsval \<Rightarrow> bool"
  js_ge :: "jsval \<Rightarrow> jsval \<Rightarrow> bool"
  js_add :: "jsval \<Rightarrow> jsval \<Rightarrow> jsval"
  js_sub :: "jsval \<Rightarrow> jsval \<Rightarrow> jsnum"
  js_mul :: "jsval \<Rightarrow> jsval \<Rightarrow> jsnum"
  js_div :: "jsval \<Rightarrow> jsval \<Rightarrow> jsnum"
  js_mod :: "jsval \<Rightarrow> jsval \<Rightarrow> jsnum"
  to_number :: "jsval \<Rightarrow> jsnum"
  to_string :: "jsval \<Rightarrow> string"
  math_min :: "jsval list \<Rightarrow> jsnum"
  math_max :: "jsval list \<Rightarrow> jsnum"
  math_abs :: "jsnum \<Rightarrow> jsnum"
  math_round :: "jsnum \<Rightarrow> jsnum"
  math_floor :: "jsnum \<Rightarrow> jsnum"
  math_ceil :: "jsnum \<Rightarrow> jsnum"
  toLowerCase :: "string \<Rightarrow> string"
  toUpperCase :: "string \<Rightarrow> string"
  trim :: "string \<Rightarrow> string"
  substring :: "string \<Rightarrow> jsnum \<Rightarrow> jsnum option \<Rightarrow> string"
  localeCompare :: "string \<Rightarrow> string \<Rightarrow> jsnum"
  regexp_test :: "string \<Rightarrow> string \<Rightarrow> js_error + bool"
  JSON_stringify :: "jsval \<Rightarrow> string option"
  now_iso :: string

text \<open>Truthiness, \<open>===\<close>, \<open>Array.prototype.includes\<close> and \<open>-x\<close> on the values.\<close>

definition truthy :: "jsval \<Rightarrow> bool" where
  "truthy v =
     (case v of
        JUndefined \<Rightarrow> False
      | JNull \<Rightarrow> False
      | JBool b \<Rightarrow> b
      | JNum n \<Rightarrow> n \<noteq> Finite 0 \<and> n \<noteq> NegZero \<and> n \<noteq> NaN
      | JStr s \<Rightarrow> s \<noteq> []
      | JArr xs \<Rightarrow> True
      | JObj ps \<Rightarrow> True)"

definition is_zero :: "jsnum \<Rightarrow> bool" where
  "is_zero n = (n = Finite 0 \<or> n = NegZero)"

definition num_equal :: "jsnum \<Rightarrow> jsnum \<Rightarrow> bool" where
  "num_equal x y = (x \<noteq> NaN \<and> y \<noteq> NaN \<and> (x = y \<or> (is_zero x \<and> is_zero y)))"

definition is_object :: "jsval \<Rightarrow> bool" where
  "is_object v = (case v of JArr xs \<Rightarrow> True | JObj ps \<Rightarrow> True | _ \<Rightarrow> False)"

definition strict_equal :: "JsRuntime \<Rightarrow> jsval \<Rightarrow> jsval \<Rightarrow> bool" where
  "strict_equal rt a b =
     (case (a, b) of
        (JNum x, JNum y) \<Rightarrow> num_equal x y
      | _ \<Rightarrow> if is_object a \<and> is_object b then same_object rt a b else a = b)"

definition same_value_zero :: "JsRuntime \<Rightarrow> jsval \<Rightarrow> jsval \<Rightarrow> bool" where
  "same_value_zero rt a b = (strict_equal rt a b \<or> (a = JNum NaN \<and> b = JNum NaN))"

definition array_includes :: "JsRuntime \<Rightarrow> jsval list \<Rightarrow> jsval \<Rightarrow> bool" where
  "array_includes rt xs v = list_ex (\<lambda>x. same_value_zero rt x v) xs"

definition num_neg :: "jsnum \<Rightarrow> jsnum" where
  "num_neg n =
     (case n of
        Finite q \<Rightarrow> if q = 0 then NegZero else Finite (- q)
      | NegZero \<Rightarrow> Finite 0
      | NaN \<Rightarrow> NaN
      | PosInf \<Rightarrow> NegInf
      | NegInf \<Rightarrow> PosInf)"

text \<open>An element of an array, \<open>undefined\<close> out of range.\<close>

definition at_index :: "jsval list \<Rightarrow> nat \<Rightarrow> jsval" where
  "at_index xs i = (if i < length xs then xs ! i else JUndefined)"

text \<open>\<open>xs.map(f)\<close> where \<open>f\<close> may throw: the first error in order, or all the results.\<close>

fun sequence_results :: "(js_error + 'a) list \<Rightarrow> js_error + 'a list" where
  "sequence_results [] = Inr []"
| "sequence_results (Inl e # rs) = Inl e"
| "sequence_results (Inr v # rs) =
     (case sequence_results rs of Inl e \<Rightarrow> Inl e | Inr vs \<Rightarrow> Inr (v # vs))"

section \<open>Query engine (query/engine.ts)\<close>

text \<open>A row is an object: the list of its properties. \<open>join(sep)\<close> of strings.\<close>

type_synonym Row = "(string \<times> jsval) list"

fun join_strings :: "string \<Rightarrow> string list \<Rightarrow> string" where
  "join_strings sep [] = []"
| "join_strings sep [s] = s"
| "join_strings sep (s # t # ss) = s @ sep @ join_strings sep (t # ss)"

text \<open>\<open>current[key]\<close> in \<open>getNestedValue\<close>, on a value that is neither \<open>null\<close> nor \<open>undefined\<close>.\<close>

definition read_property :: "JsRuntime \<Rightarrow> jsval \<Rightarrow> string \<Rightarrow> jsval" where
  "read_property rt v key =
     (case v of
        JObj ps \<Rightarrow> (case map_of ps key of None \<Rightarrow> JUndefined | Some x \<Rightarrow> x)
      | _ \<Rightarrow> prim_member rt v key)"

fun drill :: "JsRuntime \<Rightarrow> jsval \<Rightarrow> string list \<Rightarrow> jsval" where
  "drill rt current [] = current"
| "drill rt current (p # ps) =
     (if nullish current then JUndefined else drill rt (read_property rt current p) ps)"

text \<open>The loop of \<open>getNestedValue\<close> over \<open>i\<close>, from the number of parts down to 1.\<close>

fun nested_from :: "JsRuntime \<Rightarrow> Row \<Rightarrow> string list \<Rightarrow> nat \<Rightarrow> jsval" where
  "nested_from rt obj parts 0 = JUndefined"
| "nested_from rt obj parts (Suc i) =
     (case map_of obj (join_strings ''.'' (take (Suc i) parts)) of
        None \<Rightarrow> nested_from rt obj parts i
      | Some v \<Rightarrow>
          if v \<noteq> JUndefined then drill rt v (drop (Suc i) parts)
          else nested_from rt obj parts i)"

definition getNestedValue :: "JsRuntime \<Rightarrow> Row \<Rightarrow> string \<Rightarrow> jsval" where
  "getNestedValue rt obj path =
     nested_from rt obj (split_on CHR ''.'' path) (length (split_on CHR ''.'' path))"

text \<open>\<open>right.replace(/%/g, ".*").replace(/_/g, ".")\<close>.\<close>

definition like_pattern :: "string \<Rightarrow> string" where
  "like_pattern p =
     concat (map (\<lambda>c. if c = CHR ''_'' then ''.'' else [c])
               (concat (map (\<lambda>c. if c = CHR ''%'' then ''.*'' else [c]) p)))"

text \<open>The \<open>switch\<close> of \<open>evaluateComparison\<close>, on the values of the two operands.\<close>

definition compare_values :: "JsRuntime \<Rightarrow> string \<Rightarrow> jsval \<Rightarrow> jsval \<Rightarrow> js_error + bool" where
  "compare_values rt op l r =
     (if op = ''eq'' then Inr (strict_equal rt l r)
      else if op = ''neq'' then Inr (\<not> strict_equal rt l r)
      else if op = ''gt'' then Inr (js_gt rt l r)
      else if op = ''gte'' then Inr (js_ge rt l r)
      else if op = ''lt'' then Inr (js_lt rt l r)
      else if op = ''lte'' then Inr (js_le rt l r)
      else if op = ''like'' then
        (case (l, r) of
           (JStr ls, JStr rs) \<Rightarrow> regexp_test rt (''^'' @ like_pattern rs @ ''$'') ls
         | _ \<Rightarrow> Inr False)
      else if op = ''in'' then
        Inr (case r of JArr xs \<Rightarrow> array_includes rt xs l | _ \<Rightarrow> False)
      else if op = ''notIn'' then
        Inr (case r of JArr xs \<Rightarrow> \<not> array_includes rt xs l | _ \<Rightarrow> False)
      else if op = ''isNull'' then Inr (nullish l)
      else if op = ''isNotNull'' then Inr (\<not> nullish l)
      else if op = ''between'' then
        Inr (case r of
               JArr xs \<Rightarrow> js_ge rt l (at_index xs 0) \<and> js_le rt l (at_index xs 1)
             | _ \<Rightarrow> False)
      else Inl (Error ''Unknown comparison op''))"

text \<open>\<open>operands.every(...)\<close> and \<open>operands.some(...)\<close> over the operands' results, in order.\<close>

fun every_truthy :: "(js_error + jsval) list \<Rightarrow> js_error + bool" where
  "every_truthy [] = Inr True"
| "every_truthy (Inl e # rs) = Inl e"
| "every_truthy (Inr v # rs) = (if truthy v then every_truthy rs else Inr False)"

fun some_truthy :: "(js_error + jsval) list \<Rightarrow> js_error + bool" where
  "some_truthy [] = Inr False"
| "some_truthy (Inl e # rs) = Inl e"
| "some_truthy (Inr v # rs) = (if truthy v then Inr True else some_truthy rs)"

text \<open>The \<open>switch\<close> of \<open>evaluateArithmetic\<close>, on the values of the two operands.\<close>

definition arithmetic_values :: "JsRuntime \<Rightarrow> string \<Rightarrow> jsval \<Rightarrow> jsval \<Rightarrow> js_error + jsval" where
  "arithmetic_values rt op l r =
     (if op = ''add'' then Inr (js_add rt l r)
      else if op = ''subtract'' then Inr (JNum (js_sub rt l r))
      else if op = ''multiply'' then Inr (JNum (js_mul rt l r))
      else if op = ''divide'' then
        Inr (JNum (if strict_equal rt r (JNum (Finite 0)) then Finite 0 else js_div rt l r))
      else if op = ''modulo'' then
        Inr (JNum (if strict_equal rt r (JNum (Finite 0)) then Finite 0 else js_mod rt l r))
      else Inl (Error ''Unknown arithmetic op''))"

text \<open>
  The first \<open>switch\<close> of \<open>evaluateBuiltin\<close>, on the values of the first argument over
  the members of the group. \<open>Number(b) || 0\<close> is \<open>number_or_zero\<close>.
\<close>

definition number_or_zero :: "JsRuntime \<Rightarrow> jsval \<Rightarrow> jsnum" where
  "number_or_zero rt v = (if truthy (JNum (to_number rt v)) then to_number rt v else Finite 0)"

definition aggregate_values :: "JsRuntime \<Rightarrow> string \<Rightarrow> jsval list \<Rightarrow> jsval" where
  "aggregate_values rt name vs =
     (let nums = filter (\<lambda>v. \<not> nullish v) vs in
      if name = ''count'' then JNum (Finite (of_nat (length nums)))
      else if name = ''sum'' then
        foldl (\<lambda>a b. js_add rt a (JNum (number_or_zero rt b))) (JNum (Finite 0)) vs
      else if name = ''avg'' then
        (if length nums = 0 then JNull
         else JNum (js_div rt (foldl (\<lambda>a b. js_add rt a (JNum (to_number rt b))) (JNum (Finite 0)) nums)
                     (JNum (Finite (of_nat (length nums))))))
      else if name = ''min'' then
        (if length nums = 0 then JNull
         else JNum (math_min rt (map (\<lambda>v. JNum (to_number rt v)) nums)))
      else
        (if length nums = 0 then JNull
         else JNum (math_max rt (map (\<lambda>v. JNum (to_number rt v)) nums))))"

definition is_aggregate :: "string \<Rightarrow> bool" where
  "is_aggregate name = (name \<in> set [''count'', ''sum'', ''avg'', ''min'', ''max''])"

text \<open>
  The second \<open>switch\<close> of \<open>evaluateBuiltin\<close>, on the values of the arguments.
  \<open>String(args[0] ?? "")\<close> is \<open>string_of_first\<close>; the length of a string counts one
  character for each code unit.
\<close>

definition string_of_first :: "JsRuntime \<Rightarrow> jsval list \<Rightarrow> string" where
  "string_of_first rt args =
     to_string rt (if nullish (at_index args 0) then JStr [] else at_index args 0)"

definition builtin_values :: "JsRuntime \<Rightarrow> string \<Rightarrow> jsval list \<Rightarrow> js_error + jsval" where
  "builtin_values rt name args =
     (if name = ''count'' then
        Inr (case at_index args 0 of JArr xs \<Rightarrow> JNum (Finite (of_nat (length xs))) | _ \<Rightarrow> JNum (Finite 1))
      else if name = ''sum'' then
        Inr (case at_index args 0 of
               JArr xs \<Rightarrow> foldl (js_add rt) (JNum (Finite 0)) xs
             | v \<Rightarrow> v)
      else if name = ''avg'' then
        Inr (case at_index args 0 of
               JArr xs \<Rightarrow> JNum (js_div rt (foldl (js_add rt) (JNum (Finite 0)) xs)
                                    (JNum (Finite (of_nat (length xs)))))
             | v \<Rightarrow> v)
      else if name = ''min'' then
        Inr (case at_index args 0 of JArr xs \<Rightarrow> JNum (math_min rt xs) | v \<Rightarrow> v)
      else if name = ''max'' then
        Inr (case at_index args 0 of JArr xs \<Rightarrow> JNum (math_max rt xs) | v \<Rightarrow> v)
      else if name = ''concat'' then Inr (JStr (concat (map (to_string rt) args)))
      else if name = ''lower'' then Inr (JStr (toLowerCase rt (string_of_first rt args)))
      else if name = ''upper'' then Inr (JStr (toUpperCase rt (string_of_first rt args)))
      else if name = ''trim'' then Inr (JStr (trim rt (string_of_first rt args)))
      else if name = ''length'' then
        Inr (JNum (Finite (of_nat (length (string_of_first rt args)))))
      else if name = ''coalesce'' then
        Inr (case find (\<lambda>a. \<not> nullish a) args of None \<Rightarrow> JNull | Some a \<Rightarrow> a)
      else if name = ''now'' then Inr (JStr (now_iso rt))
      else if name = ''substring'' then
        Inr (JStr (substring rt (string_of_first rt args)
                     (number_or_zero rt (at_index args 1))
                     (if at_index args 2 \<noteq> JUndefined then Some (to_number rt (at_index args 2))
                      else None)))
      else if name = ''abs'' then Inr (JNum (math_abs rt (to_number rt (at_index args 0))))
      else if name = ''round'' then Inr (JNum (math_round rt (to_number rt (at_index args 0))))
      else if name = ''floor'' then Inr (JNum (math_floor rt (to_number rt (at_index args 0))))
      else if name = ''ceil'' then Inr (JNum (math_ceil rt (to_number rt (at_index args 0))))
      else Inl (Error ''Unknown builtin''))"

text \<open>
  The loop of the \<open>caseExpression\<close> branch over the results of each branch's \<open>when\<close>
  and \<open>then\<close>, in order: \<open>None\<close> when no branch is taken.
\<close>

fun first_branch :: "((js_error + jsval) \<times> (js_error + jsval)) list \<Rightarrow> js_error + jsval option" where
  "first_branch [] = Inr None"
| "first_branch ((Inl e, t) # bs) = Inl e"
| "first_branch ((Inr v, t) # bs) =
     (if truthy v then (case t of Inl e \<Rightarrow> Inl e | Inr x \<Rightarrow> Inr (Some x))
      else first_branch bs)"

text \<open>The rows that \<open>row._group\<close> holds: \<open>performGroupBy\<close> stores rows and nothing else.\<close>

definition row_of :: "jsval \<Rightarrow> Row" where
  "row_of v = (case v of JObj ps \<Rightarrow> ps | _ \<Rightarrow> [])"

text \<open>
  \<open>evaluateExpression\<close> with \<open>evaluateComparison\<close>, \<open>evaluateLogical\<close>,
  \<open>evaluateArithmetic\<close> and \<open>evaluateBuiltin\<close>: \<open>Inl\<close> is the error thrown. Where the
  source evaluates subexpressions one after the other and may stop early, the model takes
  their results in the same order and reads no result past the one the source stops at.
  A parameter that is absent is \<open>undefined\<close>.
\<close>

fun evaluateExpression ::
  "JsRuntime \<Rightarrow> (string \<times> string) list \<Rightarrow> Expression \<Rightarrow> Row \<Rightarrow> js_error + jsval" where
  "evaluateExpression rt params (FieldRef source field) row =
     (if source = ''$params''
      then Inr (case map_of params field of None \<Rightarrow> JUndefined | Some v \<Rightarrow> JStr v)
      else Inr (getNestedValue rt row (source @ ''.'' @ field)))"
| "evaluateExpression rt params (Literal stringValue integerValue booleanValue) row =
     Inr (case stringValue of
            Some s \<Rightarrow> JStr s
          | None \<Rightarrow>
              (case integerValue of
                 Some i \<Rightarrow> JNum (Finite (of_int i))
               | None \<Rightarrow> (case booleanValue of Some b \<Rightarrow> JBool b | None \<Rightarrow> JNull)))"
| "evaluateExpression rt params (Comparison op left right) row =
     (case evaluateExpression rt params left row of
        Inl e \<Rightarrow> Inl e
      | Inr l \<Rightarrow>
          (case (case right of
                   None \<Rightarrow> Inr JNull
                 | Some re \<Rightarrow> evaluateExpression rt params re row) of
             Inl e \<Rightarrow> Inl e
           | Inr r \<Rightarrow>
               (case compare_values rt op l r of Inl e \<Rightarrow> Inl e | Inr b \<Rightarrow> Inr (JBool b))))"
| "evaluateExpression rt params (LogicalOp op operands) row =
     (if op = ''and'' then
        (case every_truthy (map (\<lambda>e. evaluateExpression rt params e row) operands) of
           Inl e \<Rightarrow> Inl e | Inr b \<Rightarrow> Inr (JBool b))
      else if op = ''or'' then
        (case some_truthy (map (\<lambda>e. evaluateExpression rt params e row) operands) of
           Inl e \<Rightarrow> Inl e | Inr b \<Rightarrow> Inr (JBool b))
      else if op = ''not'' then
        (case map (\<lambda>e. evaluateExpression rt params e row) operands of
           [] \<Rightarrow> Inl (TypeError ''Cannot read properties of undefined'')
         | Inl e # rest \<Rightarrow> Inl e
         | Inr v # rest \<Rightarrow> Inr (JBool (\<not> truthy v)))
      else Inl (Error ''Unknown logical op''))"
| "evaluateExpression rt params (ArithmeticOp op left right) row =
     (case evaluateExpression rt params left row of
        Inl e \<Rightarrow> Inl e
      | Inr l \<Rightarrow>
          (case evaluateExpression rt params right row of
             Inl e \<Rightarrow> Inl e
           | Inr r \<Rightarrow> arithmetic_values rt op l r))"
| "evaluateExpression rt params (BuiltinCall name args) row =
     (let normal =
            (case sequence_results (map (\<lambda>a. evaluateExpression rt params a row) args) of
               Inl e \<Rightarrow> Inl e
             | Inr vs \<Rightarrow> builtin_values rt name vs)
      in case map_of row ''_group'' of
           None \<Rightarrow> normal
         | Some g \<Rightarrow>
             if truthy g \<and> is_aggregate name then
               (case g of
                  JArr members \<Rightarrow>
                    (case sequence_results
                            (map (\<lambda>r. case map (\<lambda>a. evaluateExpression rt params a (row_of r)) args of
                                         [] \<Rightarrow> Inl (TypeError ''Cannot read properties of undefined'')
                                       | first # rest \<Rightarrow> first)
                                 members) of
                       Inl e \<Rightarrow> Inl e
                     | Inr vs \<Rightarrow> Inr (aggregate_values rt name vs))
                | _ \<Rightarrow> Inl (TypeError ''group.map is not a function''))
             else normal)"
| "evaluateExpression rt params (FunctionCall r args) row =
     Inl (Error ''Function calls in expressions not yet supported in sync evaluation'')"
| "evaluateExpression rt params (CaseExpression branches elseValue) row =
     (case first_branch (map (\<lambda>(w, t). (evaluateExpression rt params w row,
                                          evaluateExpression rt params t row)) branches) of
        Inl e \<Rightarrow> Inl e
      | Inr (Some v) \<Rightarrow> Inr v
      | Inr None \<Rightarrow>
          (case elseValue of
             None \<Rightarrow> Inr JNull
           | Some e \<Rightarrow> evaluateExpression rt params e row))"
| "evaluateExpression rt params (UnknownExpression t) row =
     Inl (Error ''Unknown expression type'')"

text \<open>
  An object literal built by assignments, \<open>{...l, ...r}\<close> included: a key that is
  present keeps its place and takes the new value.
\<close>

definition assign_all :: "Row \<Rightarrow> Row \<Rightarrow> Row" where
  "assign_all target props = foldl (\<lambda>acc (k, v). AList.update k v acc) target props"

definition aliasRow :: "string \<Rightarrow> Row \<Rightarrow> Row" where
  "aliasRow alias row = assign_all [] (map (\<lambda>(key, v). (alias @ ''.'' @ key, v)) row)"

text \<open>\<open>rows.filter(row => this.evaluateExpression(expression, row, params))\<close>.\<close>

definition filter_rows ::
  "JsRuntime \<Rightarrow> (string \<times> string) list \<Rightarrow> Expression \<Rightarrow> Row list \<Rightarrow> js_error + Row list" where
  "filter_rows rt params expression rows =
     (case sequence_results (map (\<lambda>row. evaluateExpression rt params expression row) rows) of
        Inl e \<Rightarrow> Inl e
      | Inr vs \<Rightarrow> Inr (map fst (filter (\<lambda>(row, v). truthy v) (zip rows vs))))"

text \<open>The \<open>select\<close> step: one object for each row, a property for each field.\<close>

definition select_row ::
  "JsRuntime \<Rightarrow> (string \<times> string) list \<Rightarrow> SelectField list \<Rightarrow> Row \<Rightarrow> js_error + Row" where
  "select_row rt params fs row =
     (case sequence_results (map (\<lambda>f. evaluateExpression rt params (field_value f) row) fs) of
        Inl e \<Rightarrow> Inl e
      | Inr vs \<Rightarrow> Inr (assign_all [] (zip (map field_alias fs) vs)))"

definition select_rows ::
  "JsRuntime \<Rightarrow> (string \<times> string) list \<Rightarrow> SelectField list \<Rightarrow> Row list \<Rightarrow> js_error + Row list" where
  "select_rows rt params fs rows = sequence_results (map (select_row rt params fs) rows)"

text \<open>
  \<open>performJoin\<close>. For a left row, \<open>match_row\<close> is the inner loop over the right rows:
  each merged row with whether the predicate held. The set \<open>rightUsed\<close> is the list of
  flags of the right rows.
\<close>

definition match_row ::
  "JsRuntime \<Rightarrow> (string \<times> string) list \<Rightarrow> Expression \<Rightarrow> Row list \<Rightarrow> Row
     \<Rightarrow> js_error + (Row \<times> bool) list" where
  "match_row rt params on right l =
     sequence_results
       (map (\<lambda>r. case evaluateExpression rt params on (assign_all l r) of
                    Inl e \<Rightarrow> Inl e
                  | Inr v \<Rightarrow> Inr (assign_all l r, truthy v))
            right)"

definition performJoin ::
  "JsRuntime \<Rightarrow> (string \<times> string) list \<Rightarrow> Row list \<Rightarrow> Row list \<Rightarrow> string \<Rightarrow> Expression
     \<Rightarrow> js_error + Row list" where
  "performJoin rt params left right jt on =
     (if jt = ''cross'' then Inr (concat (map (\<lambda>l. map (\<lambda>r. assign_all l r) right) left))
      else
        (case sequence_results (map (match_row rt params on right) left) of
           Inl e \<Rightarrow> Inl e
         | Inr matches \<Rightarrow>
             Inr (concat (map (\<lambda>(l, ms).
                             map fst (filter snd ms)
                             @ (if \<not> list_ex snd ms \<and> jt = ''left'' then [l] else []))
                           (zip left matches))
                  @ (if jt = ''right''
                     then map fst (filter (\<lambda>(r, i). \<not> list_ex (\<lambda>ms. snd (ms ! i)) matches)
                                     (zip right [0..<length right]))
                     else []))))"

text \<open>
  \<open>performGroupBy\<close>. The key of a row joins the \<open>JSON.stringify\<close> of each expression's
  value, where \<open>join\<close> writes \<open>undefined\<close> as the empty string. The groups are a map in
  insertion order.
\<close>

definition group_key ::
  "JsRuntime \<Rightarrow> (string \<times> string) list \<Rightarrow> Expression list \<Rightarrow> Row \<Rightarrow> js_error + string" where
  "group_key rt params expressions row =
     (case sequence_results (map (\<lambda>e. evaluateExpression rt params e row) expressions) of
        Inl e \<Rightarrow> Inl e
      | Inr vs \<Rightarrow>
          Inr (join_strings ''|||''
                 (map (\<lambda>v. case JSON_stringify rt v of None \<Rightarrow> [] | Some s \<Rightarrow> s) vs)))"

definition add_to_group :: "(string, Row list) jsmap \<Rightarrow> string \<times> Row \<Rightarrow> (string, Row list) jsmap" where
  "add_to_group groups kr =
     AList.update (fst kr)
       ((case map_of groups (fst kr) of None \<Rightarrow> [] | Some g \<Rightarrow> g) @ [snd kr]) groups"

definition performGroupBy ::
  "JsRuntime \<Rightarrow> (string \<times> string) list \<Rightarrow> Row list \<Rightarrow> Expression list \<Rightarrow> js_error + Row list" where
  "performGroupBy rt params rows expressions =
     (case sequence_results (map (group_key rt params expressions) rows) of
        Inl e \<Rightarrow> Inl e
      | Inr keys \<Rightarrow>
          Inr (map (\<lambda>(key, g). AList.update ''_group'' (JArr (map JObj g)) (assign_all [] (g ! 0)))
                 (foldl add_to_group [] (zip keys rows))))"

text \<open>\<open>performDistinct\<close>, with the set \<open>seen\<close> of the rows' JSON texts.\<close>

fun distinct_rows :: "JsRuntime \<Rightarrow> string option list \<Rightarrow> Row list \<Rightarrow> Row list" where
  "distinct_rows rt seen [] = []"
| "distinct_rows rt seen (row # rows) =
     (if JSON_stringify rt (JObj row) \<in> set seen then distinct_rows rt seen rows
      else row # distinct_rows rt (JSON_stringify rt (JObj row) # seen) rows)"

definition performDistinct :: "JsRuntime \<Rightarrow> Row list \<Rightarrow> Row list" where
  "performDistinct rt rows = distinct_rows rt [] rows"

text \<open>
  \<open>performOrderBy\<close>. \<open>compare_rows\<close> is the comparator: the loop over the clauses,
  which yields a number. \<open>Array.prototype.sort\<close> is stable and puts \<open>a\<close> before \<open>b\<close>
  when the comparator is negative; which pairs it compares is left to the engine, and
  the model compares as an insertion sort does.
\<close>

fun compare_rows ::
  "JsRuntime \<Rightarrow> (string \<times> string) list \<Rightarrow> OrderByClause list \<Rightarrow> Row \<Rightarrow> Row \<Rightarrow> js_error + jsnum" where
  "compare_rows rt params [] a b = Inr (Finite 0)"
| "compare_rows rt params (clause # clauses) a b =
     (case evaluateExpression rt params (order_value clause) a of
        Inl e \<Rightarrow> Inl e
      | Inr aVal \<Rightarrow>
          (case evaluateExpression rt params (order_value clause) b of
             Inl e \<Rightarrow> Inl e
           | Inr bVal \<Rightarrow>
               if nullish aVal then
                 (if nullish bVal then compare_rows rt params clauses a b
                  else Inr (if order_nulls clause = Some ''first'' then Finite (- 1) else Finite 1))
               else if nullish bVal then
                 Inr (if order_nulls clause = Some ''first'' then Finite 1 else Finite (- 1))
               else
                 (let cmp = (case (aVal, bVal) of
                               (JStr x, JStr y) \<Rightarrow> localeCompare rt x y
                             | _ \<Rightarrow> js_sub rt aVal bVal)
                  in if \<not> num_equal cmp (Finite 0)
                     then Inr (if order_direction clause = ''desc'' then num_neg cmp else cmp)
                     else compare_rows rt params clauses a b)))"

definition is_positive :: "jsnum \<Rightarrow> bool" where
  "is_positive n = (case n of Finite q \<Rightarrow> q > 0 | PosInf \<Rightarrow> True | _ \<Rightarrow> False)"

fun insert_sorted :: "('a \<Rightarrow> 'a \<Rightarrow> js_error + jsnum) \<Rightarrow> 'a \<Rightarrow> 'a list \<Rightarrow> js_error + 'a list" where
  "insert_sorted cmp x [] = Inr [x]"
| "insert_sorted cmp x (y # ys) =
     (case cmp x y of
        Inl e \<Rightarrow> Inl e
      | Inr c \<Rightarrow>
          if is_positive c
          then (case insert_sorted cmp x ys of Inl e \<Rightarrow> Inl e | Inr zs \<Rightarrow> Inr (y # zs))
          else Inr (x # y # ys))"

fun sort_with :: "('a \<Rightarrow> 'a \<Rightarrow> js_error + jsnum) \<Rightarrow> 'a list \<Rightarrow> js_error + 'a list" where
  "sort_with cmp [] = Inr []"
| "sort_with cmp (x # xs) =
     (case sort_with cmp xs of Inl e \<Rightarrow> Inl e | Inr ys \<Rightarrow> insert_sorted cmp x ys)"

definition performOrderBy ::
  "JsRuntime \<Rightarrow> (string \<times> string) list \<Rightarrow> Row list \<Rightarrow> OrderByClause list \<Rightarrow> js_error + Row list" where
  "performOrderBy rt params rows clauses = sort_with (compare_rows rt params clauses) rows"

text \<open>\<open>xs.slice(start, end)\<close> for integers: a negative index counts from the end.\<close>

definition slice_index :: "int \<Rightarrow> int \<Rightarrow> nat" where
  "slice_index len i = nat (if i < 0 then max (len + i) 0 else min i len)"

definition js_slice :: "'a list \<Rightarrow> int \<Rightarrow> int \<Rightarrow> 'a list" where
  "js_slice xs start end_index =
     (let k = slice_index (int (length xs)) start;
          final = slice_index (int (length xs)) end_index
      in take (final - k) (drop k xs))"

text \<open>
  \<open>executePlan\<close>: the loop over the pipeline with the variable \<open>rows\<close>. The data
  source is the function \<open>fetchRecords\<close>, whose promise may be rejected; its records are
  objects. The map \<open>datasets\<close> of the source is written and never read: it is left out.
\<close>

type_synonym DataSourceAdapter = "Source \<Rightarrow> string option \<Rightarrow> js_error + Row list"

definition fetch_source ::
  "DataSourceAdapter \<Rightarrow> string option \<Rightarrow> QueryPlan \<Rightarrow> string \<Rightarrow> js_error + Row list" where
  "fetch_source fetchRecords defaultDid qp alias =
     (case find (\<lambda>s. plan_alias s = alias) (sources qp) of
        None \<Rightarrow> Inl (Error (''Unknown source: '' @ alias))
      | Some sourcePlan \<Rightarrow>
          (case fetchRecords (plan_source sourcePlan) defaultDid of
             Inl e \<Rightarrow> Inl e
           | Inr records \<Rightarrow> Inr (map (aliasRow alias) records)))"

fun execute_step ::
  "JsRuntime \<Rightarrow> DataSourceAdapter \<Rightarrow> string option \<Rightarrow> QueryPlan \<Rightarrow> (string \<times> string) list
     \<Rightarrow> PipelineStep \<Rightarrow> Row list \<Rightarrow> js_error + Row list" where
  "execute_step rt fetchRecords defaultDid qp params (Fetch alias) rows =
     fetch_source fetchRecords defaultDid qp alias"
| "execute_step rt fetchRecords defaultDid qp params (Join jt alias on) rows =
     (case fetch_source fetchRecords defaultDid qp alias of
        Inl e \<Rightarrow> Inl e
      | Inr rightRows \<Rightarrow> performJoin rt params rows rightRows jt on)"
| "execute_step rt fetchRecords defaultDid qp params (Filter expression) rows =
     filter_rows rt params expression rows"
| "execute_step rt fetchRecords defaultDid qp params (Group expressions) rows =
     performGroupBy rt params rows expressions"
| "execute_step rt fetchRecords defaultDid qp params (Having expression) rows =
     filter_rows rt params expression rows"
| "execute_step rt fetchRecords defaultDid qp params (Select fs) rows =
     select_rows rt params fs rows"
| "execute_step rt fetchRecords defaultDid qp params Distinct rows =
     Inr (performDistinct rt rows)"
| "execute_step rt fetchRecords defaultDid qp params (OrderBy clauses) rows =
     performOrderBy rt params rows clauses"
| "execute_step rt fetchRecords defaultDid qp params (Limit n offset) rows =
     Inr (js_slice rows (case offset of None \<Rightarrow> 0 | Some k \<Rightarrow> k)
            ((case offset of None \<Rightarrow> 0 | Some k \<Rightarrow> k) + n))"

fun run_pipeline ::
  "JsRuntime \<Rightarrow> DataSourceAdapter \<Rightarrow> string option \<Rightarrow> QueryPlan \<Rightarrow> (string \<times> string) list
     \<Rightarrow> PipelineStep list \<Rightarrow> Row list \<Rightarrow> js_error + Row list" where
  "run_pipeline rt fetchRecords defaultDid qp params [] rows = Inr rows"
| "run_pipeline rt fetchRecords defaultDid qp params (step # steps) rows =
     (case execute_step rt fetchRecords defaultDid qp params step rows of
        Inl e \<Rightarrow> Inl e
      | Inr rows' \<Rightarrow> run_pipeline rt fetchRecords defaultDid qp params steps rows')"

definition executePlan ::
  "JsRuntime \<Rightarrow> DataSourceAdapter \<Rightarrow> string option \<Rightarrow> QueryPlan \<Rightarrow> (string \<times> string) list
     \<Rightarrow> js_error + Row list" where
  "executePlan rt fetchRecords defaultDid qp params =
     run_pipeline rt fetchRecords defaultDid qp params (pipeline qp) []"

text \<open>
  The engine: its data source, its default did, its cache of results, and the two
  \<open>JSON.stringify\<close> of \<open>buildCacheKey\<close>. \<open>execute\<close> returns the engine after the call
  and either the error thrown or the results with the flag \<open>cached\<close>. The options are
  absent (\<open>None\<close>) or hold \<open>cacheTtl\<close> and \<open>version\<close>, each optional.
\<close>

record QueryEngine =
  engine_runtime :: JsRuntime
  dataSource :: DataSourceAdapter
  defaultDid :: "string option"
  engine_cache :: "Row list QueryCache"
  stringify_query :: "Query \<Rightarrow> string"
  stringify_params :: "(string \<times> string) list \<Rightarrow> string"

record ExecuteOptions =
  cacheTtl :: "int option"
  options_version :: "string option"

definition buildCacheKey :: "QueryEngine \<Rightarrow> Query \<Rightarrow> (string \<times> string) list \<Rightarrow> string" where
  "buildCacheKey eng query params =
     ''query:'' @ stringify_query eng query @ '':'' @ stringify_params eng params"

definition caching :: "ExecuteOptions option \<Rightarrow> int option" where
  "caching options =
     (case options of
        None \<Rightarrow> None
      | Some opts \<Rightarrow> (case cacheTtl opts of None \<Rightarrow> None | Some t \<Rightarrow> if t \<noteq> 0 then Some t else None))"

definition execute ::
  "QueryEngine \<Rightarrow> Query \<Rightarrow> (string \<times> string) list \<Rightarrow> ExecuteOptions option \<Rightarrow> int
     \<Rightarrow> QueryEngine \<times> (js_error + Row list \<times> bool)" where
  "execute eng query params options now =
     (let cacheKey = buildCacheKey eng query params;
          ver = (case options of
                   None \<Rightarrow> ''default''
                 | Some opts \<Rightarrow> (case options_version opts of None \<Rightarrow> ''default'' | Some v \<Rightarrow> v));
          looked = (case caching options of
                      None \<Rightarrow> (engine_cache eng, None)
                    | Some t \<Rightarrow> cache_get (engine_cache eng) cacheKey ver now)
      in case snd looked of
           Some cached \<Rightarrow> (eng\<lparr>engine_cache := fst looked\<rparr>, Inr (cached, True))
         | None \<Rightarrow>
             (case executePlan (engine_runtime eng) (dataSource eng) (defaultDid eng) (plan query) params of
                Inl e \<Rightarrow> (eng\<lparr>engine_cache := fst looked\<rparr>, Inl e)
              | Inr results \<Rightarrow>
                  (eng\<lparr>engine_cache :=
                         (case caching options of
                            None \<Rightarrow> fst looked
                          | Some t \<Rightarrow> cache_set (fst looked) cacheKey results t ver now)\<rparr>,
                   Inr (results, False))))"

definition invalidateCache :: "QueryEngine \<Rightarrow> string option \<Rightarrow> QueryEngine" where
  "invalidateCache eng pre =
     (case pre of
        None \<Rightarrow> eng\<lparr>engine_cache := invalidateAll (engine_cache eng)\<rparr>
      | Some p \<Rightarrow>
          if p \<noteq> [] then eng\<lparr>engine_cache := invalidateByPrefix (engine_cache eng) p\<rparr>
          else eng\<lparr>engine_cache := invalidateAll (engine_cache eng)\<rparr>)"

text \<open>
  A runtime to evaluate the engine on small inputs: it is exact on finite numbers and
  concatenates strings, and answers \<open>NaN\<close>, \<open>undefined\<close>, \<open>false\<close> or the empty
  string everywhere else.
\<close>

definition finite_op :: "(rat \<Rightarrow> rat \<Rightarrow> rat) \<Rightarrow> jsval \<Rightarrow> jsval \<Rightarrow> jsnum" where
  "finite_op f a b = (case (a, b) of (JNum (Finite x), JNum (Finite y)) \<Rightarrow> Finite (f x y) | _ \<Rightarrow> NaN)"

definition finite_rel :: "(rat \<Rightarrow> rat \<Rightarrow> bool) \<Rightarrow> jsval \<Rightarrow> jsval \<Rightarrow> bool" where
  "finite_rel f a b = (case (a, b) of (JNum (Finite x), JNum (Finite y)) \<Rightarrow> f x y | _ \<Rightarrow> False)"

definition small_runtime :: JsRuntime where
  "small_runtime =
     \<lparr>same_object = (\<lambda>a b. a = b),
      prim_member = (\<lambda>v key. JUndefined),
      js_lt = finite_rel (\<lambda>x y. x < y),
      js_le = finite_rel (\<lambda>x y. x \<le> y),
      js_gt = finite_rel (\<lambda>x y. x > y),
      js_ge = finite_rel (\<lambda>x y. x \<ge> y),
      js_add = (\<lambda>a b. case (a, b) of (JStr x, JStr y) \<Rightarrow> JStr (x @ y) | _ \<Rightarrow> JNum (finite_op (\<lambda>x y. x + y) a b)),
      js_sub = finite_op (\<lambda>x y. x - y),
      js_mul = finite_op (\<lambda>x y. x * y),
      js_div = (\<lambda>a b. if b = JNum (Finite 0) then NaN else finite_op (\<lambda>x y. x / y) a b),
      js_mod = (\<lambda>a b. NaN),
      to_number = (\<lambda>v. case v of JNum n \<Rightarrow> n | _ \<Rightarrow> NaN),
      to_string = (\<lambda>v. case v of JStr s \<Rightarrow> s | _ \<Rightarrow> []),
      math_min = (\<lambda>vs. NaN),
      math_max = (\<lambda>vs. NaN),
      math_abs = (\<lambda>n. case n of Finite q \<Rightarrow> Finite (abs q) | _ \<Rightarrow> NaN),
      math_round = (\<lambda>n. NaN),
      math_floor = (\<lambda>n. NaN),
      math_ceil = (\<lambda>n. NaN),
      toLowerCase = (\<lambda>s. s),
      toUpperCase = (\<lambda>s. s),
      trim = (\<lambda>s. s),
      substring = (\<lambda>s a b. []),
      localeCompare = (\<lambda>a b. if a = b then Finite 0 else NaN),
      regexp_test = (\<lambda>p s. Inl (SyntaxError ''Invalid regular expression'')),
      JSON_stringify = (\<lambda>v. case v of JUndefined \<Rightarrow> None | JStr s \<Rightarrow> Some s | _ \<Rightarrow> Some []),
      now_iso = ''2026-01-01T00:00:00.000Z''\<rparr>"

text \<open>
  A source of three avasts with a number of ayes each, and a query over it: the avasts
  with more than one aye, their uri and count, the most ayes first, at most five.
\<close>

definition avast_source :: Source where
  "avast_source = \<lparr>source_alias = ''avast'', source_collection = ''chat.pirate.avast'', source_did = None\<rparr>"

definition avast_records :: "Row list" where
  "avast_records =
     [[(''_uri'', JStr ''at://a/1''), (''ayes'', JNum (Finite 1))],
      [(''_uri'', JStr ''at://a/2''), (''ayes'', JNum (Finite 3))],
      [(''_uri'', JStr ''at://a/3''), (''ayes'', JNum (Finite 2))]]"

definition avast_data :: DataSourceAdapter where
  "avast_data src d =
     (if source_collection src = ''chat.pirate.avast'' then Inr avast_records
      else Inl (Error ''listRecords failed: 400''))"

definition avast_query :: Query where
  "avast_query =
     \<lparr>query_select =
        [\<lparr>field_alias = ''uri'', field_value = FieldRef ''avast'' ''_uri''\<rparr>,
         \<lparr>field_alias = ''ayes'', field_value = FieldRef ''avast'' ''ayes''\<rparr>],
      query_from = avast_source,
      query_joins = None,
      query_where = Some (Comparison ''gt'' (FieldRef ''avast'' ''ayes'') (Some (Literal None (Some 1) None))),
      query_groupBy = None,
      query_having = None,
      query_orderBy = Some [\<lparr>order_value = FieldRef ''avast'' ''ayes'', order_direction = ''desc'',
                              order_nulls = None\<rparr>],
      query_limit = Some 5,
      query_offset = None,
      query_distinct = None\<rparr>"

definition avast_engine :: QueryEngine where
  "avast_engine =
     \<lparr>engine_runtime = small_runtime, dataSource = avast_data, defaultDid = Some ''did:plc:abc'',
      engine_cache = new_QueryCache None,
      stringify_query = (\<lambda>q. ''q''), stringify_params = (\<lambda>p. ''p'')\<rparr>"

text \<open>The steps of a pipeline other than \<open>fetch\<close>, \<open>join\<close> and \<open>group\<close>.\<close>

fun size_keeping :: "PipelineStep \<Rightarrow> bool" where
  "size_keeping (Fetch a) = False"
| "size_keeping (Join jt a on) = False"
| "size_keeping (Group es) = False"
| "size_keeping s = True"


text \<open>
  \<open>Controller.resolveNode\<close> (controller/index.ts): a reference resolves to a computed
  node without dependencies when the controller has stored a computed record under its
  cid. The controller's map \<open>computedRecords\<close> is read through its keys only.
\<close>

definition Controller_resolveNode :: "string list \<Rightarrow> ResourceRef \<Rightarrow> DependencyNode option" where
  "Controller_resolveNode computedRecords r =
     (if cid r \<in> set computedRecords
      then Some \<lparr>node_ref = r, node_kind = KComputed, dependencies = [], code_link = None\<rparr>
      else None)"

text \<open>
  A deploy with one endpoint, a function whose code blob the fetcher serves and which
  depends on a computed record and on a collection.
\<close>

definition ref_getAvasts :: ResourceRef where
  "ref_getAvasts = \<lparr>did = ''did:plc:abc'', cid = ''bafyfn''\<rparr>"

definition ref_avastCount :: ResourceRef where
  "ref_avastCount = \<lparr>did = ''did:plc:abc'', cid = ''bafyq''\<rparr>"

definition node_getAvasts :: DependencyNode where
  "node_getAvasts =
     \<lparr>node_ref = ref_getAvasts, node_kind = KFunction,
      dependencies =
        [\<lparr>dep_name = ''counts'', dep_kind = KComputed, dep_ref = Some ref_avastCount,
           dep_collection = None\<rparr>,
         \<lparr>dep_name = ''avasts'', dep_kind = KCollection, dep_ref = None,
           dep_collection = Some ''chat.pirate.avast''\<rparr>],
      code_link = Some ''bafycode''\<rparr>"

definition node_avastCount :: DependencyNode where
  "node_avastCount =
     \<lparr>node_ref = ref_avastCount, node_kind = KComputed, dependencies = [], code_link = None\<rparr>"

definition pirate_resolver :: "ResourceRef \<Rightarrow> DependencyNode option" where
  "pirate_resolver r =
     (if r = ref_getAvasts then Some node_getAvasts
      else if r = ref_avastCount then Some node_avastCount
      else None)"

definition pirate_fetcher :: RecordFetcher where
  "pirate_fetcher = \<lparr>getBlob = (\<lambda>d c. if c = ''bafycode'' then Inr [1, 2, 3] else Inl (Error ''getBlob failed: 404''))\<rparr>"

definition pirate_manifest :: DeployManifest where
  "pirate_manifest =
     \<lparr>deployRef = ref_getAvasts, manifest_version = Some ''1'',
      manifest_endpoints =
        [\<lparr>ep_name = ''chat.pirate.getAvasts'', ep_kind = KFunction, ep_ref = ref_getAvasts\<rparr>],
      resources =
        [(''did:plc:abc:bafyq'',
          \<lparr>res_ref = ref_avastCount, res_kind = KComputed, res_record = node_avastCount,
             res_dependencies = [], codeBlob = None\<rparr>),
         (''did:plc:abc:bafyfn'',
          \<lparr>res_ref = ref_getAvasts, res_kind = KFunction, res_record = node_getAvasts,
             res_dependencies = dependencies node_getAvasts, codeBlob = Some [1, 2, 3]\<rparr>)],
      resolvedAt = 100\<rparr>"


definition avast_record :: DeployRecord where
  "avast_record =
     \<lparr>record_version = None, record_description = None,
      record_endpoints = [\<lparr>ep_name = ''chat.pirate.getAvasts'', ep_kind = KComputed, ep_ref = ref_avastCount\<rparr>],
      record_createdAt = ''2026-01-01T00:00:00.000Z''\<rparr>"

definition avast_manifest :: "ResourceRef \<Rightarrow> int \<Rightarrow> DeployManifest" where
  "avast_manifest dref now =
     \<lparr>deployRef = dref, manifest_version = None,
      manifest_endpoints = record_endpoints avast_record,
      resources =
        [(''did:plc:abc:bafyq'',
          \<lparr>res_ref = ref_avastCount, res_kind = KComputed, res_record = node_avastCount,
             res_dependencies = [], codeBlob = None\<rparr>)],
      resolvedAt = now\<rparr>"

definition default_options :: OrchestratorOptions where
  "default_options =
     \<lparr>options_fetcher = pirate_fetcher, options_nodeResolver = Controller_resolveNode [''bafyq''],
      maxActiveDeploys = None\<rparr>"


definition pirate_record :: DeployRecord where
  "pirate_record =
     \<lparr>record_version = Some ''1'', record_description = None,
      record_endpoints = [\<lparr>ep_name = ''chat.pirate.getAvasts'', ep_kind = KFunction, ep_ref = ref_getAvasts\<rparr>],
      record_createdAt = ''2026-01-01T00:00:00.000Z''\<rparr>"

text \<open>Two deploys and three rule lists used to evaluate the shaper.\<close>

definition deploy_A :: ResourceRef where
  "deploy_A = \<lparr>did = ''did:plc:abc'', cid = ''bafyv1''\<rparr>"

definition deploy_B :: ResourceRef where
  "deploy_B = \<lparr>did = ''did:plc:abc'', cid = ''bafyv2''\<rparr>"

definition rules_30_70 :: "TrafficRule list" where
  "rules_30_70 = [\<lparr>deploy = deploy_A, weight = 3000\<rparr>, \<lparr>deploy = deploy_B, weight = 7000\<rparr>]"

definition rules_50_40 :: "TrafficRule list" where
  "rules_50_40 = [\<lparr>deploy = deploy_A, weight = 5000\<rparr>, \<lparr>deploy = deploy_B, weight = 4000\<rparr>]"

definition rules_out_of_range :: "TrafficRule list" where
  "rules_out_of_range = [\<lparr>deploy = deploy_A, weight = 15000\<rparr>, \<lparr>deploy = deploy_B, weight = - 5000\<rparr>]"

section \<open>Properties of the query cache\<close>

lemma map_of_delete_other: "k' \<noteq> k \<Longrightarrow> map_of (AList.delete k al) k' = map_of al k'"
  by (simp add: delete_conv')

text \<open>
  C7. \<open>QueryCache.get(key, version)\<close> returns the stored value exactly when an entry for
  the key exists, its \<open>expiresAt\<close> has not passed (it is not below the clock) and its
  version is the one asked for. When the entry is expired or has another version, the
  result is a miss and the entry is removed from the cache, every other key keeping its
  binding.
\<close>

theorem cache_get_hit_iff:
  "(snd (cache_get qc key ver now) = Some v \<longleftrightarrow>
      (\<exists>e. map_of (cache qc) key = Some e \<and> \<not> expiresAt e < now
          \<and> entry_version e = ver \<and> entry_value e = v))
   \<and> (\<forall>e. map_of (cache qc) key = Some e \<and> (expiresAt e < now \<or> entry_version e \<noteq> ver) \<longrightarrow>
          snd (cache_get qc key ver now) = None
        \<and> map_of (cache (fst (cache_get qc key ver now))) key = None
        \<and> (\<forall>k'. k' \<noteq> key \<longrightarrow>
              map_of (cache (fst (cache_get qc key ver now))) k' = map_of (cache qc) k'))"
  by (auto simp: cache_get_def delete_conv' split: option.splits)

theorem cache_get_hit_iff_witness:
  "snd (cache_get \<lparr>cache = [(''q1'', \<lparr>entry_value = (7::nat), expiresAt = 100, entry_version = ''v1''\<rparr>),
                              (''q2'', \<lparr>entry_value = 8, expiresAt = 500, entry_version = ''v1''\<rparr>)],
                     maxEntries = 10000\<rparr> ''q1'' ''v1'' 200) = None
   \<and> map_of (cache (fst (cache_get \<lparr>cache = [(''q1'', \<lparr>entry_value = (7::nat), expiresAt = 100, entry_version = ''v1''\<rparr>),
                              (''q2'', \<lparr>entry_value = 8, expiresAt = 500, entry_version = ''v1''\<rparr>)],
                     maxEntries = 10000\<rparr> ''q1'' ''v1'' 200))) ''q1'' = None
   \<and> map_of (cache (fst (cache_get \<lparr>cache = [(''q1'', \<lparr>entry_value = (7::nat), expiresAt = 100, entry_version = ''v1''\<rparr>),
                              (''q2'', \<lparr>entry_value = 8, expiresAt = 500, entry_version = ''v1''\<rparr>)],
                     maxEntries = 10000\<rparr> ''q1'' ''v1'' 200))) ''q2''
       = Some \<lparr>entry_value = 8, expiresAt = 500, entry_version = ''v1''\<rparr>"
  using cache_get_hit_iff [of "\<lparr>cache = [(''q1'', \<lparr>entry_value = (7::nat), expiresAt = 100, entry_version = ''v1''\<rparr>),
                              (''q2'', \<lparr>entry_value = 8, expiresAt = 500, entry_version = ''v1''\<rparr>)],
                     maxEntries = 10000\<rparr>" "''q1''" "''v1''" 200 7]
  by simp

section \<open>Properties of the traffic shaper\<close>

lemma total_weight_sum: "total_weight rs = sum_list (map weight rs)"
proof -
  have "foldl (\<lambda>sum r. sum + weight r) a rs = a + sum_list (map weight rs)" for a
    by (induction rs arbitrary: a) auto
  then show ?thesis by (simp add: total_weight_def)
qed

lemma sum_insort_key: "sum_list (map g (insort_key f x xs)) = g x + sum_list (map g xs)"
  for g :: "'a \<Rightarrow> int"
  by (induction xs) auto

lemma sum_sort_key: "sum_list (map g (sort_key f xs)) = sum_list (map g xs)"
  for g :: "'a \<Rightarrow> int"
  by (induction xs) (auto simp: sum_insort_key)

lemma walk_rules_covers:
  "cumulative \<le> v \<Longrightarrow> v < cumulative + sum_list (map weight rs) \<Longrightarrow>
     \<exists>r\<in>set rs. walk_rules rs cumulative v = Some (deploy r)"
proof (induction rs arbitrary: cumulative)
  case Nil
  then show ?case by simp
next
  case (Cons r rs)
  show ?case
  proof (cases "v < cumulative + weight r")
    case True
    then show ?thesis by simp
  next
    case False
    then have "cumulative + weight r \<le> v" by simp
    moreover have "v < (cumulative + weight r) + sum_list (map weight rs)"
      using Cons.prems(2) by simp
    ultimately have "\<exists>r'\<in>set rs. walk_rules rs (cumulative + weight r) v = Some (deploy r')"
      by (rule Cons.IH)
    with False show ?thesis by simp
  qed
qed

lemma find_Some_member: "find P xs = Some x \<Longrightarrow> x \<in> set xs \<and> P x"
  by (induction xs) (auto split: if_splits)

lemma hashToRange_range: "0 \<le> hashToRange key \<and> hashToRange key < 10000"
  by (simp add: hashToRange_def TOTAL_BASIS_POINTS_def)

lemma updateRules_accepts_iff:
  "snd (updateRules sh rs) = None \<longleftrightarrow>
     rs = [] \<or> (total_weight rs = 10000 \<and> (\<forall>r\<in>set rs. 0 \<le> weight r \<and> weight r \<le> 10000))"
proof (cases "find (\<lambda>r. weight r < 0 \<or> weight r > TOTAL_BASIS_POINTS) rs")
  case None
  then have "\<forall>r\<in>set rs. 0 \<le> weight r \<and> weight r \<le> 10000"
    by (auto simp: find_None_iff TOTAL_BASIS_POINTS_def)
  with None show ?thesis
    by (auto simp: updateRules_def Let_def TOTAL_BASIS_POINTS_def)
next
  case (Some r)
  from find_Some_member [OF this] have "r \<in> set rs" "weight r < 0 \<or> weight r > 10000"
    by (simp_all add: TOTAL_BASIS_POINTS_def)
  then have "\<not> (\<forall>r\<in>set rs. 0 \<le> weight r \<and> weight r \<le> 10000)" by force
  moreover from \<open>r \<in> set rs\<close> have "rs \<noteq> []" by auto
  ultimately show ?thesis using Some
    by (simp add: updateRules_def Let_def TOTAL_BASIS_POINTS_def)
qed

lemma updateRules_accepted_rules:
  "snd (updateRules sh rs) = None \<Longrightarrow> rules (fst (updateRules sh rs)) = sort_key (\<lambda>r. - weight r) rs"
  by (auto simp: updateRules_def Let_def split: option.splits if_splits)

lemma updateRules_rejected_unchanged:
  "snd (updateRules sh rs) \<noteq> None \<Longrightarrow> fst (updateRules sh rs) = sh"
  by (auto simp: updateRules_def Let_def split: option.splits if_splits)

text \<open>
  C3, as the claim states it, fails: a non-empty rule list whose weights sum to exactly
  10000 is not always accepted. The weights 15000 and -5000 sum to 10000 and
  \<open>updateRules\<close> throws on the first of them, which is above 10000.
\<close>

theorem updateRules_sum_only_counterexample:
  "total_weight rules_out_of_range = 10000
   \<and> updateRules \<lparr>rules = []\<rparr> rules_out_of_range = (\<lparr>rules = []\<rparr>, Some (WeightOutOfRange 15000))"
  by (simp add: updateRules_def total_weight_def rules_out_of_range_def TOTAL_BASIS_POINTS_def)

text \<open>
  C3, amended. \<open>updateRules\<close> accepts a rule list exactly when it is empty, or its
  weights sum to exactly 10000 and each weight lies between 0 and 10000. It throws on every
  non-empty list whose weights do not sum to 10000. Whenever it throws, the shaper is
  unchanged, so every later \<open>selectDeploy\<close> answers from the rules installed before.
  An accepted list is stored sorted by weight, largest first, and \<open>updateRules([])\<close>
  clears the rules, after which \<open>selectDeploy\<close> returns \<open>null\<close>.
\<close>

theorem updateRules_spec:
  "(snd (updateRules sh rs) = None \<longleftrightarrow>
      rs = [] \<or> (total_weight rs = 10000 \<and> (\<forall>r\<in>set rs. 0 \<le> weight r \<and> weight r \<le> 10000)))
   \<and> (rs \<noteq> [] \<and> total_weight rs \<noteq> 10000 \<longrightarrow>
         snd (updateRules sh rs) = Some (SumNotTotal (total_weight rs)))
   \<and> (snd (updateRules sh rs) \<noteq> None \<longrightarrow>
         fst (updateRules sh rs) = sh
       \<and> (\<forall>k rnd. selectDeploy (fst (updateRules sh rs)) k rnd = selectDeploy sh k rnd))
   \<and> (snd (updateRules sh rs) = None \<longrightarrow>
         rules (fst (updateRules sh rs)) = sort_key (\<lambda>r. - weight r) rs)
   \<and> rules (fst (updateRules sh [])) = []
   \<and> selectDeploy (fst (updateRules sh [])) k rnd = None"
proof -
  have a: "rs \<noteq> [] \<and> total_weight rs \<noteq> 10000 \<longrightarrow>
         snd (updateRules sh rs) = Some (SumNotTotal (total_weight rs))"
    by (simp add: updateRules_def Let_def TOTAL_BASIS_POINTS_def)
  have b: "rules (fst (updateRules sh [])) = []"
    by (simp add: updateRules_def)
  have c: "selectDeploy (fst (updateRules sh [])) k rnd = None"
    by (simp add: updateRules_def selectDeploy_def)
  show ?thesis
    using updateRules_accepts_iff [of sh rs] updateRules_accepted_rules [of sh rs]
      updateRules_rejected_unchanged [of sh rs] a b c
    by simp
qed

theorem updateRules_spec_witness:
  "snd (updateRules \<lparr>rules = rules_30_70\<rparr> rules_50_40) = Some (SumNotTotal 9000)
   \<and> fst (updateRules \<lparr>rules = rules_30_70\<rparr> rules_50_40) = \<lparr>rules = rules_30_70\<rparr>
   \<and> selectDeploy (fst (updateRules \<lparr>rules = rules_30_70\<rparr> rules_50_40)) None 42
       = selectDeploy \<lparr>rules = rules_30_70\<rparr> None 42
   \<and> snd (updateRules \<lparr>rules = []\<rparr> rules_30_70) = None
   \<and> rules (fst (updateRules \<lparr>rules = []\<rparr> rules_30_70))
       = [\<lparr>deploy = deploy_B, weight = 7000\<rparr>, \<lparr>deploy = deploy_A, weight = 3000\<rparr>]"
proof -
  have bad: "rules_50_40 \<noteq> [] \<and> total_weight rules_50_40 \<noteq> 10000"
    by (simp add: rules_50_40_def total_weight_def)
  have tw: "total_weight rules_50_40 = 9000"
    by (simp add: rules_50_40_def total_weight_def)
  have good: "total_weight rules_30_70 = 10000
      \<and> (\<forall>r\<in>set rules_30_70. 0 \<le> weight r \<and> weight r \<le> 10000)"
    by (simp add: rules_30_70_def total_weight_def)
  have srt: "sort_key (\<lambda>r. - weight r) rules_30_70
      = [\<lparr>deploy = deploy_B, weight = 7000\<rparr>, \<lparr>deploy = deploy_A, weight = 3000\<rparr>]"
    by (simp add: rules_30_70_def)
  show ?thesis
    using updateRules_spec [of "\<lparr>rules = rules_30_70\<rparr>" rules_50_40]
      updateRules_spec [of "\<lparr>rules = []\<rparr>" rules_30_70] bad tw good srt
    by simp
qed

text \<open>
  C4. For a rule set that \<open>updateRules\<close> accepted, \<open>selectDeploy\<close> with a sticky key
  does not depend on the random draw: any two calls return the same deploy. The key is
  hashed into the range from 0 to 9999, the installed rules are sorted by weight, largest
  first, and with two rules or more the answer is the deploy of the first rule whose
  cumulative span covers the hash, one of the rules installed (the walk never falls
  through to the last rule).
\<close>

theorem selectDeploy_sticky:
  assumes "snd (updateRules sh rs) = None"
  shows "selectDeploy (fst (updateRules sh rs)) (Some key) rnd1
           = selectDeploy (fst (updateRules sh rs)) (Some key) rnd2
       \<and> 0 \<le> hashToRange key \<and> hashToRange key < 10000
       \<and> sorted (map (\<lambda>r. - weight r) (rules (fst (updateRules sh rs))))
       \<and> (2 \<le> length rs \<longrightarrow>
            selectDeploy (fst (updateRules sh rs)) (Some key) rnd1
              = walk_rules (rules (fst (updateRules sh rs))) 0 (hashToRange key)
          \<and> (\<exists>r\<in>set rs. walk_rules (rules (fst (updateRules sh rs))) 0 (hashToRange key)
                 = Some (deploy r)))"
proof -
  let ?sh = "fst (updateRules sh rs)"
  have det: "selectDeploy ?sh (Some key) rnd1 = selectDeploy ?sh (Some key) rnd2"
    by (simp add: selectDeploy_def)
  have srt: "sorted (map (\<lambda>r. - weight r) (rules ?sh))"
  proof (cases "rs = []")
    case True
    then show ?thesis by (simp add: updateRules_def)
  next
    case False
    then show ?thesis using updateRules_accepted_rules [OF assms] by simp
  qed
  have walk: "selectDeploy ?sh (Some key) rnd1 = walk_rules (rules ?sh) 0 (hashToRange key)
      \<and> (\<exists>r\<in>set rs. walk_rules (rules ?sh) 0 (hashToRange key) = Some (deploy r))"
    if len: "2 \<le> length rs"
  proof -
    from len have ne: "rs \<noteq> []" by auto
    have rl: "rules ?sh = sort_key (\<lambda>r. - weight r) rs"
      using updateRules_accepted_rules [OF assms] .
    from assms ne have tot: "total_weight rs = 10000"
      by (simp add: updateRules_accepts_iff)
    have "sum_list (map weight (rules ?sh)) = 10000"
      using tot by (simp add: rl sum_sort_key total_weight_sum)
    then have "hashToRange key < 0 + sum_list (map weight (rules ?sh))"
      using hashToRange_range [of key] by simp
    from walk_rules_covers [OF _ this] hashToRange_range [of key]
    obtain r where r: "r \<in> set (rules ?sh)"
      "walk_rules (rules ?sh) 0 (hashToRange key) = Some (deploy r)" by blast
    from r(1) have "r \<in> set rs" by (simp add: rl)
    moreover have "length (rules ?sh) = length rs" by (simp add: rl)
    ultimately show ?thesis using r(2) len by (auto simp: selectDeploy_def)
  qed
  show ?thesis using det srt walk hashToRange_range [of key] by blast
qed

theorem selectDeploy_sticky_witness:
  "snd (updateRules \<lparr>rules = []\<rparr> rules_30_70) = None
   \<and> hashToRange (utf16_of ''did:plc:alice'') = 5735
   \<and> selectDeploy (fst (updateRules \<lparr>rules = []\<rparr> rules_30_70)) (Some (utf16_of ''did:plc:alice'')) 0
       = selectDeploy (fst (updateRules \<lparr>rules = []\<rparr> rules_30_70)) (Some (utf16_of ''did:plc:alice'')) 9999
   \<and> selectDeploy (fst (updateRules \<lparr>rules = []\<rparr> rules_30_70)) (Some (utf16_of ''did:plc:alice'')) 0
       = Some deploy_B"
proof -
  have acc: "snd (updateRules \<lparr>rules = []\<rparr> rules_30_70) = None"
    by (simp add: updateRules_def rules_30_70_def total_weight_def TOTAL_BASIS_POINTS_def)
  have h: "hashToRange (utf16_of ''did:plc:alice'') = 5735"
    by (simp add: hashToRange_def utf16_of_def TOTAL_BASIS_POINTS_def)
  have rl: "rules (fst (updateRules \<lparr>rules = []\<rparr> rules_30_70))
      = [\<lparr>deploy = deploy_B, weight = 7000\<rparr>, \<lparr>deploy = deploy_A, weight = 3000\<rparr>]"
    by (simp add: updateRules_def rules_30_70_def total_weight_def TOTAL_BASIS_POINTS_def)
  have len: "2 \<le> length rules_30_70"
    by (simp add: rules_30_70_def)
  show ?thesis
    using selectDeploy_sticky [OF acc, of "utf16_of ''did:plc:alice''" 0 9999] acc h rl len
    by auto
qed

section \<open>Properties of authentication\<close>

lemma split_on_not_Nil: "split_on sep s \<noteq> []"
  by (induction s) (auto split: list.splits)

lemma split_on_length: "length (split_on sep s) = Suc (length (filter (\<lambda>c. c = sep) s))"
  by (induction s) (auto split: list.splits simp: split_on_not_Nil)















section \<open>Properties of the manifest builder\<close>

lemma visit_visit_deps_marks:
  shows "set (fst st) \<subseteq> set (snd st) \<Longrightarrow>
           set (fst (visit ns tempMarked key st)) \<subseteq> set (snd (visit ns tempMarked key st))
         \<and> set (snd st) \<subseteq> set (snd (visit ns tempMarked key st))
         \<and> (key \<notin> set tempMarked \<longrightarrow> key \<in> set (snd (visit ns tempMarked key st)))"
    and "set (fst st) \<subseteq> set (snd st) \<Longrightarrow>
           set (fst (visit_deps ns tempMarked rs st)) \<subseteq> set (snd (visit_deps ns tempMarked rs st))
         \<and> set (snd st) \<subseteq> set (snd (visit_deps ns tempMarked rs st))"
proof (induction ns tempMarked key st and ns tempMarked rs st rule: visit_visit_deps.induct)
  case (1 ns tempMarked key st)
  show ?case
  proof (cases "key \<in> set (fst st) \<or> key \<in> set tempMarked")
    case True
    then show ?thesis using "1.prems" by (auto simp: visit.simps)
  next
    case False
    show ?thesis
    proof (cases "map_of ns key")
      case None
      then show ?thesis using False "1.prems" by (auto simp: visit.simps)
    next
      case (Some node)
      obtain p s where ps: "visit_deps ns (key # tempMarked) (resource_deps node) st = (p, s)"
        by (cases "visit_deps ns (key # tempMarked) (resource_deps node) st")
      have "set (fst (p, s)) \<subseteq> set (snd (p, s)) \<and> set (snd st) \<subseteq> set (snd (p, s))"
        using "1.IH" [of node] False Some "1.prems" unfolding ps [symmetric] by blast
      moreover have "visit ns tempMarked key st = (key # p, s @ [key])"
        using False Some ps by (simp add: visit.simps)
      ultimately show ?thesis by auto
    qed
  qed
next
  case (2 ns tempMarked st)
  then show ?case by simp
next
  case (3 ns tempMarked r rs st)
  have a: "set (fst (visit ns tempMarked (refKey r) st)) \<subseteq> set (snd (visit ns tempMarked (refKey r) st))
      \<and> set (snd st) \<subseteq> set (snd (visit ns tempMarked (refKey r) st))"
    using "3.IH"(1) "3.prems" by blast
  then have b: "set (fst (visit_deps ns tempMarked (r # rs) st)) \<subseteq> set (snd (visit_deps ns tempMarked (r # rs) st))
      \<and> set (snd (visit ns tempMarked (refKey r) st)) \<subseteq> set (snd (visit_deps ns tempMarked (r # rs) st))"
    using "3.IH"(2) by simp
  from a b show ?case by blast
qed

lemma visit_all_keys:
  "set (fst st) \<subseteq> set (snd st) \<Longrightarrow>
     set (fst (foldl (\<lambda>st key. visit ns [] key st) st ks)) \<subseteq> set (snd (foldl (\<lambda>st key. visit ns [] key st) st ks))
   \<and> set (snd st) \<union> set ks \<subseteq> set (snd (foldl (\<lambda>st key. visit ns [] key st) st ks))"
proof (induction ks arbitrary: st)
  case Nil
  then show ?case by simp
next
  case (Cons k ks)
  from visit_visit_deps_marks(1) [OF Cons.prems, of ns "[]" k]
  have v: "set (fst (visit ns [] k st)) \<subseteq> set (snd (visit ns [] k st))"
    "set (snd st) \<subseteq> set (snd (visit ns [] k st))" "k \<in> set (snd (visit ns [] k st))"
    by auto
  from Cons.IH [OF v(1)] v(2,3) show ?case by auto
qed

lemma topological_sort_complete: "fst ` set ns \<subseteq> set (topological_sort ns)"
  using visit_all_keys [of "([], [])" ns "map fst ns"] by (auto simp: topological_sort_def)

lemma resolve_fold_keys:
  "fst ` set (foldl (\<lambda>res key. case map_of ns key of
                          None \<Rightarrow> res
                        | Some node \<Rightarrow> AList.update key (f node) res) res0 ks)
     = fst ` set res0 \<union> {k \<in> set ks. map_of ns k \<noteq> None}"
proof (induction ks arbitrary: res0)
  case Nil
  then show ?case by simp
next
  case (Cons k ks)
  show ?case
  proof (cases "map_of ns k")
    case None
    then show ?thesis using Cons.IH [of res0] by auto
  next
    case (Some node)
    have "fst ` set (AList.update k (f node) res0) = insert k (fst ` set res0)"
      by (simp add: dom_update)
    then show ?thesis using Some Cons.IH [of "AList.update k (f node) res0"] by auto
  qed
qed

lemma resolve_all_keys:
  "fst ` set (resolve_all fetcher graph) = {k \<in> set (order graph). map_of (nodes graph) k \<noteq> None}"
  unfolding resolve_all_def by (simp add: resolve_fold_keys)

lemma validate_endpoints:
  assumes "validate graph = []" and "e \<in> set (graph_endpoints graph)"
  shows "map_of (nodes graph) (refKey (ep_ref e)) \<noteq> None"
proof
  assume "map_of (nodes graph) (refKey (ep_ref e)) = None"
  then have "UnknownResource (ep_name e) (refKey (ep_ref e)) \<in> set (validate graph)"
    using assms(2) unfolding validate_def by force
  with assms(1) show False by simp
qed

lemma discover_Nil: "discover resolveNode [] visited ns = Some ns"
  by (subst discover.simps) simp

lemma discover_Cons:
  "discover resolveNode (r # rest) visited ns =
     (if refKey r \<in> set visited then discover resolveNode rest visited ns
      else (case resolveNode r of
              None \<Rightarrow> discover resolveNode rest (refKey r # visited) ns
            | Some node \<Rightarrow>
                discover resolveNode (rest @ resource_deps node) (refKey r # visited)
                  (AList.update (refKey r) node ns)))"
  by (subst discover.simps) simp

text \<open>
  C8. Whenever \<open>ManifestBuilder.build\<close> returns a manifest (it neither throws a
  validation error nor runs forever), the manifest carries the deploy's endpoints, and the
  keys of \<open>manifest.resources\<close> include the \<open>refKey\<close> of every endpoint's ref:
  every endpoint is resolved in the manifest.
\<close>

theorem manifest_resources_cover_endpoints:
  assumes "ManifestBuilder_build dref deployRecord fetcher nodeResolver now = Some (Inr manifest)"
  shows "manifest_endpoints manifest = record_endpoints deployRecord
       \<and> refKey ` ep_ref ` set (manifest_endpoints manifest) \<subseteq> fst ` set (resources manifest)
       \<and> (\<forall>e\<in>set (record_endpoints deployRecord).
             \<exists>res. map_of (resources manifest) (refKey (ep_ref e)) = Some res)"
proof -
  from assms obtain graph where
    g: "DependencyGraphBuilder_build (record_endpoints deployRecord) nodeResolver = Some graph"
    by (auto simp: ManifestBuilder_build_def split: option.splits)
  from assms g have val: "validate graph = []"
    by (auto simp: ManifestBuilder_build_def split: if_splits)
  from assms g val have m: "manifest_endpoints manifest = record_endpoints deployRecord"
    "resources manifest = resolve_all fetcher graph"
    by (auto simp: ManifestBuilder_build_def)
  from g have ge: "graph_endpoints graph = record_endpoints deployRecord"
    and ord: "order graph = topological_sort (nodes graph)"
    by (auto simp: DependencyGraphBuilder_build_def split: option.splits)
  have cover: "refKey (ep_ref e) \<in> fst ` set (resources manifest)"
    if e: "e \<in> set (record_endpoints deployRecord)" for e
  proof -
    from e ge have "map_of (nodes graph) (refKey (ep_ref e)) \<noteq> None"
      using validate_endpoints [OF val, of e] by simp
    moreover from this have "refKey (ep_ref e) \<in> fst ` set (nodes graph)"
      by (simp add: map_of_eq_None_iff)
    then have "refKey (ep_ref e) \<in> set (order graph)"
      using topological_sort_complete [of "nodes graph"] ord by auto
    ultimately show ?thesis by (simp add: m(2) resolve_all_keys)
  qed
  have "\<exists>res. map_of (resources manifest) (refKey (ep_ref e)) = Some res"
    if e: "e \<in> set (record_endpoints deployRecord)" for e
    using cover [OF e] by (metis map_of_eq_None_iff not_Some_eq)
  with cover m(1) show ?thesis by auto
qed

lemma pirate_discover:
  "discover pirate_resolver [ref_getAvasts] [] []
     = Some [(''did:plc:abc:bafyfn'', node_getAvasts), (''did:plc:abc:bafyq'', node_avastCount)]"
  by (simp add: discover_Cons discover_Nil pirate_resolver_def refKey_def ref_getAvasts_def
      ref_avastCount_def resource_deps_def node_getAvasts_def node_avastCount_def)

lemma pirate_sort:
  "topological_sort [(''did:plc:abc:bafyfn'', node_getAvasts), (''did:plc:abc:bafyq'', node_avastCount)]
     = [''did:plc:abc:bafyq'', ''did:plc:abc:bafyfn'']"
  by (simp add: topological_sort_def visit.simps refKey_def ref_getAvasts_def
      ref_avastCount_def resource_deps_def node_getAvasts_def node_avastCount_def)

lemma pirate_build:
  "ManifestBuilder_build ref_getAvasts pirate_record pirate_fetcher pirate_resolver 100
     = Some (Inr pirate_manifest)"
proof -
  have v: "validate \<lparr>graph_endpoints = record_endpoints pirate_record,
      nodes = [(''did:plc:abc:bafyfn'', node_getAvasts), (''did:plc:abc:bafyq'', node_avastCount)],
      order = [''did:plc:abc:bafyq'', ''did:plc:abc:bafyfn'']\<rparr> = []"
    by (simp add: validate_def pirate_record_def refKey_def ref_getAvasts_def ref_avastCount_def
        node_getAvasts_def node_avastCount_def)
  have r: "resolve_all pirate_fetcher \<lparr>graph_endpoints = record_endpoints pirate_record,
      nodes = [(''did:plc:abc:bafyfn'', node_getAvasts), (''did:plc:abc:bafyq'', node_avastCount)],
      order = [''did:plc:abc:bafyq'', ''did:plc:abc:bafyfn'']\<rparr> = resources pirate_manifest"
    by (simp add: resolve_all_def resolve_node_def pirate_manifest_def pirate_fetcher_def
        node_getAvasts_def node_avastCount_def ref_getAvasts_def ref_avastCount_def)
  have d: "discover pirate_resolver (map ep_ref (record_endpoints pirate_record)) [] []
     = Some [(''did:plc:abc:bafyfn'', node_getAvasts), (''did:plc:abc:bafyq'', node_avastCount)]"
    using pirate_discover by (simp add: pirate_record_def)
  have g: "DependencyGraphBuilder_build (record_endpoints pirate_record) pirate_resolver
     = Some \<lparr>graph_endpoints = record_endpoints pirate_record,
      nodes = [(''did:plc:abc:bafyfn'', node_getAvasts), (''did:plc:abc:bafyq'', node_avastCount)],
      order = [''did:plc:abc:bafyq'', ''did:plc:abc:bafyfn'']\<rparr>"
    by (simp add: DependencyGraphBuilder_build_def d pirate_sort)
  have "ManifestBuilder_build ref_getAvasts pirate_record pirate_fetcher pirate_resolver 100
     = Some (Inr \<lparr>deployRef = ref_getAvasts, manifest_version = record_version pirate_record,
                      manifest_endpoints = record_endpoints pirate_record,
                      resources = resources pirate_manifest, resolvedAt = 100\<rparr>)"
    unfolding ManifestBuilder_build_def g by (simp add: v r)
  then show ?thesis by (simp add: pirate_manifest_def pirate_record_def)
qed

theorem manifest_resources_cover_endpoints_witness:
  "ManifestBuilder_build ref_getAvasts pirate_record pirate_fetcher pirate_resolver 100
     = Some (Inr pirate_manifest)
   \<and> refKey ` ep_ref ` set (manifest_endpoints pirate_manifest) \<subseteq> fst ` set (resources pirate_manifest)
   \<and> (\<exists>res. map_of (resources pirate_manifest) (refKey ref_getAvasts) = Some res)"
proof -
  have e: "\<lparr>ep_name = ''chat.pirate.getAvasts'', ep_kind = KFunction, ep_ref = ref_getAvasts\<rparr>
      \<in> set (record_endpoints pirate_record)"
    by (simp add: pirate_record_def)
  show ?thesis
    using manifest_resources_cover_endpoints [OF pirate_build] pirate_build e by fastforce
qed

section \<open>Properties of the deploy orchestrator\<close>

lemma state_of_setState:
  "state_of (setState ds r st m now) key = (if key = refKey r then Some st else state_of ds key)"
  by (simp add: state_of_def setState_def Let_def update_conv')

lemma wf_setState: "wf_deploys ds \<Longrightarrow> wf_deploys (setState ds r st m now)"
  unfolding wf_deploys_def setState_def Let_def
  by (auto simp: distinct_update update_conv' split: option.splits if_splits)

lemma state_of_set_failed:
  "state_of (set_failed ds k msg) key
     = (if key = k \<and> map_of ds k \<noteq> None then Some FAILED else state_of ds key)"
  by (auto simp: state_of_def set_failed_def map_of_map_entry split: option.splits)

lemma wf_set_failed: "wf_deploys ds \<Longrightarrow> wf_deploys (set_failed ds k msg)"
  unfolding wf_deploys_def set_failed_def
  by (auto simp: distinct_map_entry map_of_map_entry split: option.splits if_splits)

lemma active_keys_subset: "active_keys ds \<subseteq> fst ` set ds"
  by (auto simp: active_keys_def state_of_def dest!: map_of_SomeD intro: rev_image_eqI)

lemma finite_active_keys: "finite (active_keys ds)"
  by (rule finite_subset [OF active_keys_subset]) simp

lemma length_active_card:
  "distinct (map fst ds) \<Longrightarrow> length (getActiveDeploys ds) = card (active_keys ds)"
proof (induction ds)
  case Nil
  then show ?case by (simp add: getActiveDeploys_def active_keys_def state_of_def)
next
  case (Cons p ds)
  obtain k s where p: "p = (k, s)" by (cases p)
  from Cons.prems p have k: "k \<notin> fst ` set ds" and d: "distinct (map fst ds)" by auto
  from k have nk: "k \<notin> active_keys ds" using active_keys_subset by blast
  have "active_keys (p # ds) = (if state s = ACTIVE then insert k (active_keys ds) else active_keys ds)"
    using nk by (auto simp: active_keys_def state_of_def p)
  then show ?case
    using Cons.IH [OF d] nk finite_active_keys [of ds]
    by (simp add: getActiveDeploys_def p)
qed



lemma oldest_is_active:
  assumes "wf_deploys ds" and "filter (\<lambda>d. state d = ACTIVE) (map snd ds) = oldest # rest"
  shows "refKey (status_ref oldest) \<in> active_keys ds"
proof -
  have "oldest \<in> set (filter (\<lambda>d. state d = ACTIVE) (map snd ds))"
    using assms(2) by simp
  then obtain k where k: "(k, oldest) \<in> set ds" and a: "state oldest = ACTIVE" by auto
  from assms(1) k have m: "map_of ds k = Some oldest"
    by (simp add: wf_deploys_def)
  with assms(1) have "k = refKey (status_ref oldest)" by (simp add: wf_deploys_def)
  with m a show ?thesis by (simp add: active_keys_def state_of_def)
qed

lemma drain_oldest_cases:
  assumes "wf_deploys ds"
  shows "(int (card (active_keys ds)) < max_active opts \<and> drain_oldest opts ds now = ds)
       \<or> (active_keys ds = {} \<and> drain_oldest opts ds now = ds)
       \<or> (max_active opts \<le> int (card (active_keys ds)) \<and>
           (\<exists>r'. refKey r' \<in> active_keys ds
                \<and> drain_oldest opts ds now = setState ds r' DRAINING None now))"
proof -
  have len: "length (filter (\<lambda>d. state d = ACTIVE) (map snd ds)) = card (active_keys ds)"
    using length_active_card [of ds] assms by (simp add: wf_deploys_def getActiveDeploys_def)
  show ?thesis
  proof (cases "filter (\<lambda>d. state d = ACTIVE) (map snd ds)")
    case Nil
    with len have "card (active_keys ds) = 0" by simp
    then have "active_keys ds = {}" using finite_active_keys [of ds] by simp
    moreover have "drain_oldest opts ds now = ds" using Nil by (simp add: drain_oldest_def)
    ultimately show ?thesis by simp
  next
    case (Cons oldest rest)
    from oldest_is_active [OF assms Cons] have "refKey (status_ref oldest) \<in> active_keys ds" .
    then show ?thesis using Cons len
      by (cases "max_active opts \<le> int (card (active_keys ds))")
         (auto simp: drain_oldest_def Let_def)
  qed
qed









lemma forward_refl: "forward s s"
  by (simp add: forward_def)

lemma forward_trans: "forward a b \<Longrightarrow> forward b c \<Longrightarrow> forward a c"
  by (auto simp: forward_def)

lemma forward_opt_refl: "forward_opt a a"
  by (cases a) (simp_all add: forward_refl)

lemma forward_opt_trans: "forward_opt a b \<Longrightarrow> forward_opt b c \<Longrightarrow> forward_opt a c"
  by (cases a; cases b; cases c) (auto intro: forward_trans)

lemma states_forward_refl: "states_forward ds ds"
  by (simp add: states_forward_def forward_opt_refl)

lemma transp_states_forward: "transp states_forward"
  by (rule transpI) (auto simp: states_forward_def intro: forward_opt_trans)

lemma states_forward_setState:
  assumes "forward_opt (state_of ds (refKey r)) (Some st)"
  shows "states_forward ds (setState ds r st m now)"
  using assms by (simp add: states_forward_def state_of_setState forward_opt_refl)

lemma states_forward_set_failed:
  assumes "state_of ds k \<noteq> Some RETIRED"
  shows "states_forward ds (set_failed ds k msg)"
proof -
  have "forward_opt (state_of ds key) (state_of (set_failed ds k msg) key)" for key
  proof (cases "key = k \<and> map_of ds k \<noteq> None")
    case True
    then obtain s where "state_of ds k = Some s" by (auto simp: state_of_def)
    with True assms show ?thesis
      by (cases s) (auto simp: state_of_set_failed forward_def)
  next
    case False
    then show ?thesis by (auto simp: state_of_set_failed forward_opt_refl)
  qed
  then show ?thesis by (simp add: states_forward_def)
qed

lemma states_forward_drain_oldest:
  assumes "wf_deploys ds"
  shows "states_forward ds (drain_oldest opts ds now)"
  using drain_oldest_cases [OF assms, of opts now]
  by (auto simp: states_forward_refl active_keys_def forward_def intro!: states_forward_setState)

lemma state_of_drain_oldest_other:
  assumes "wf_deploys ds" and "state_of ds key \<noteq> Some ACTIVE"
  shows "state_of (drain_oldest opts ds now) key = state_of ds key"
  using drain_oldest_cases [OF assms(1), of opts now] assms(2)
  by (auto simp: active_keys_def state_of_setState)

lemma wf_drain_oldest: "wf_deploys ds \<Longrightarrow> wf_deploys (drain_oldest opts ds now)"
  using drain_oldest_cases [of ds opts now] by (auto simp: wf_setState)

lemma processDeploy_steps_fresh_forward:
  assumes wf: "wf_deploys ds" and fresh: "map_of ds (refKey r) = None"
  shows "successively states_forward (ds # processDeploy_steps opts ds r outcome now)"
proof -
  let ?s1 = "setState ds r PENDING None now"
  let ?s2 = "setState ?s1 r FETCHING None now"
  let ?s3 = "setState ?s2 r RESOLVING None now"
  let ?s4 = "setState ?s3 r BUILDING None now"
  have f1: "states_forward ds ?s1"
    using fresh by (intro states_forward_setState) (simp add: state_of_def)
  have f2: "states_forward ?s1 ?s2"
    by (intro states_forward_setState) (simp add: state_of_setState forward_def)
  have f3: "states_forward ?s2 ?s3"
    by (intro states_forward_setState) (simp add: state_of_setState forward_def)
  have f4: "states_forward ?s3 ?s4"
    by (intro states_forward_setState) (simp add: state_of_setState forward_def)
  show ?thesis
  proof (cases outcome)
    case (Inl msg)
    have "states_forward ?s4 (set_failed ?s4 (refKey r) msg)"
      by (intro states_forward_set_failed) (simp add: state_of_setState)
    with f1 f2 f3 f4 Inl show ?thesis
      by (simp add: processDeploy_steps_def Let_def)
  next
    case (Inr m)
    let ?s5 = "setState ?s4 r ACTIVATING (Some m) now"
    let ?s6 = "drain_oldest opts ?s5 now"
    let ?s7 = "setState ?s6 r ACTIVE (Some m) now"
    have wf5: "wf_deploys ?s5" using wf by (simp add: wf_setState)
    have f5: "states_forward ?s4 ?s5"
      by (intro states_forward_setState) (simp add: state_of_setState forward_def)
    have f6: "states_forward ?s5 ?s6" using wf5 by (rule states_forward_drain_oldest)
    have "state_of ?s6 (refKey r) = Some ACTIVATING"
      using state_of_drain_oldest_other [OF wf5, of "refKey r" opts now]
      by (simp add: state_of_setState)
    then have f7: "states_forward ?s6 ?s7"
      by (intro states_forward_setState) (simp add: forward_def)
    from f1 f2 f3 f4 f5 f6 f7 Inr show ?thesis
      by (simp add: processDeploy_steps_def Let_def)
  qed
qed

lemma retireDeploy_fresh_forward:
  assumes "state_of ds (refKey r) \<noteq> Some RETIRED" and "state_of ds (refKey r) \<noteq> Some FAILED"
  shows "successively states_forward (ds # retireDeploy ds r now)"
proof -
  have "forward_opt (state_of ds (refKey r)) (Some DRAINING)"
  proof (cases "state_of ds (refKey r)")
    case None
    then show ?thesis by simp
  next
    case (Some s)
    with assms show ?thesis by (cases s) (auto simp: forward_def)
  qed
  then have "states_forward ds (setState ds r DRAINING None now)"
    by (rule states_forward_setState)
  moreover have "states_forward (setState ds r DRAINING None now)
      (setState (setState ds r DRAINING None now) r RETIRED None now)"
    by (intro states_forward_setState) (simp add: state_of_setState forward_def)
  ultimately show ?thesis by (simp add: retireDeploy_def Let_def)
qed

lemma wf_processDeploy_steps:
  "wf_deploys ds \<Longrightarrow> \<forall>s\<in>set (processDeploy_steps opts ds r outcome now). wf_deploys s"
  by (cases outcome)
     (simp_all add: processDeploy_steps_def Let_def wf_setState wf_set_failed wf_drain_oldest)

lemma wf_op_steps:
  assumes "wf_deploys ds" and "op_steps opts ds x = Some tr"
  shows "\<forall>s\<in>set tr. wf_deploys s"
proof (cases x)
  case (ProcessDeploy r deployRecord now)
  with assms(2) obtain outcome where "tr = processDeploy_steps opts ds r outcome now"
    by (auto simp: processDeploy_def split: option.splits)
  then show ?thesis using wf_processDeploy_steps [OF assms(1)] by simp
next
  case (RetireDeploy r now)
  with assms(2) have "tr = retireDeploy ds r now" by simp
  then show ?thesis using assms(1) by (simp add: retireDeploy_def Let_def wf_setState)
qed

lemma op_steps_fresh_forward:
  assumes "wf_deploys ds" and "fresh_op ds x" and "op_steps opts ds x = Some tr"
  shows "successively states_forward (ds # tr)"
proof (cases x)
  case (ProcessDeploy r deployRecord now)
  with assms(3) obtain outcome where "tr = processDeploy_steps opts ds r outcome now"
    by (auto simp: processDeploy_def split: option.splits)
  then show ?thesis
    using processDeploy_steps_fresh_forward [OF assms(1)] assms(2) ProcessDeploy by simp
next
  case (RetireDeploy r now)
  with assms(3) have "tr = retireDeploy ds r now" by simp
  then show ?thesis using retireDeploy_fresh_forward [of ds r now] assms(2) RetireDeploy by simp
qed

lemma op_steps_nonempty: "op_steps opts ds x = Some tr \<Longrightarrow> tr \<noteq> []"
  by (cases x) (auto simp: processDeploy_def processDeploy_steps_def retireDeploy_def Let_def
      split: option.splits sum.splits)

lemma run_ops_fresh_forward:
  "wf_deploys ds \<Longrightarrow> fresh_ops opts ds xs \<Longrightarrow> run_ops opts ds xs = Some tr \<Longrightarrow>
     successively states_forward (ds # tr)"
proof (induction xs arbitrary: ds tr)
  case Nil
  then show ?case by simp
next
  case (Cons x xs)
  from Cons.prems(3) obtain t1 t2 where t: "op_steps opts ds x = Some t1"
    "run_ops opts (last (ds # t1)) xs = Some t2" "tr = t1 @ t2"
    by (auto split: option.splits)
  from Cons.prems(2) t(1) have fr: "fresh_op ds x" "fresh_ops opts (last (ds # t1)) xs" by auto
  have ne: "t1 \<noteq> []" using op_steps_nonempty [OF t(1)] .
  have s1: "successively states_forward (ds # t1)"
    using op_steps_fresh_forward [OF Cons.prems(1) fr(1) t(1)] .
  have "wf_deploys (last (ds # t1))" using wf_op_steps [OF Cons.prems(1) t(1)] ne by simp
  from Cons.IH [OF this fr(2) t(2)] have s2: "successively states_forward (last t1 # t2)"
    using ne by simp
  have "successively states_forward ((ds # t1) @ t2)"
    using s1 s2 ne by (auto simp: successively_append_iff successively_Cons)
  then show ?case by (simp add: t(3))
qed

lemma wf_empty: "wf_deploys []"
  by (simp add: wf_deploys_def)


lemma avast_build:
  "ManifestBuilder_build dref avast_record pirate_fetcher (Controller_resolveNode [''bafyq'']) now
     = Some (Inr (avast_manifest dref now))"
proof -
  have d: "discover (Controller_resolveNode [''bafyq'']) (map ep_ref (record_endpoints avast_record)) [] []
      = Some [(''did:plc:abc:bafyq'', node_avastCount)]"
    by (simp add: discover_Cons discover_Nil avast_record_def Controller_resolveNode_def refKey_def
        ref_avastCount_def resource_deps_def node_avastCount_def)
  have t: "topological_sort [(''did:plc:abc:bafyq'', node_avastCount)] = [''did:plc:abc:bafyq'']"
    by (simp add: topological_sort_def visit.simps resource_deps_def node_avastCount_def)
  have g: "DependencyGraphBuilder_build (record_endpoints avast_record) (Controller_resolveNode [''bafyq''])
      = Some \<lparr>graph_endpoints = record_endpoints avast_record,
               nodes = [(''did:plc:abc:bafyq'', node_avastCount)], order = [''did:plc:abc:bafyq'']\<rparr>"
    by (simp add: DependencyGraphBuilder_build_def d t)
  have v: "validate \<lparr>graph_endpoints = record_endpoints avast_record,
               nodes = [(''did:plc:abc:bafyq'', node_avastCount)], order = [''did:plc:abc:bafyq'']\<rparr> = []"
    by (simp add: validate_def avast_record_def refKey_def ref_avastCount_def node_avastCount_def)
  have r: "resolve_all pirate_fetcher \<lparr>graph_endpoints = record_endpoints avast_record,
               nodes = [(''did:plc:abc:bafyq'', node_avastCount)], order = [''did:plc:abc:bafyq'']\<rparr>
      = resources (avast_manifest dref now)"
    by (simp add: resolve_all_def resolve_node_def avast_manifest_def node_avastCount_def)
  show ?thesis
    unfolding ManifestBuilder_build_def g
    by (simp add: v r) (simp add: avast_manifest_def avast_record_def)
qed

lemma default_processDeploy:
  "processDeploy default_options ds r avast_record now
     = Some (processDeploy_steps default_options ds r (Inr (avast_manifest r now)) now)"
  by (simp add: processDeploy_def default_options_def avast_build)


lemma max_active_default: "max_active default_options = 2"
  by (simp add: max_active_def default_options_def)


lemma setState_twice:
  "st1 \<noteq> ACTIVE \<Longrightarrow> st1 \<noteq> RETIRED \<Longrightarrow>
     setState (setState ds r st1 None now) r st2 m now = setState ds r st2 m now"
  by (cases "map_of ds (refKey r)"; cases m) (simp_all add: setState_def Let_def update_conv')

lemma last_processDeploy_steps:
  "last (processDeploy_steps opts ds r (Inr m) now)
     = setState (drain_oldest opts (setState ds r ACTIVATING (Some m) now) now) r ACTIVE (Some m) now"
  by (simp add: processDeploy_steps_def Let_def setState_twice)







lemma forward_terminal:
  "forward s s' \<Longrightarrow> s = RETIRED \<or> s = FAILED \<Longrightarrow> s' = s"
  by (auto simp: forward_def)

lemma state_of_processDeploy_hd:
  "state_of (hd (processDeploy_steps opts ds r outcome now)) (refKey r) = Some PENDING"
  by (cases outcome) (simp_all add: processDeploy_steps_def Let_def state_of_setState)

lemma state_of_processDeploy_last:
  "state_of (last (processDeploy_steps opts ds r outcome now)) (refKey r)
     = Some (case outcome of Inl msg \<Rightarrow> FAILED | Inr m \<Rightarrow> ACTIVE)"
proof (cases outcome)
  case (Inl msg)
  have "map_of (setState ds' r st m now) (refKey r) \<noteq> None" for ds' st m
    by (simp add: setState_def Let_def update_conv')
  then show ?thesis using Inl
    by (simp add: processDeploy_steps_def Let_def state_of_set_failed)
next
  case (Inr m)
  then show ?thesis
    by (simp add: processDeploy_steps_def Let_def state_of_setState)
qed

lemma state_of_retireDeploy_last:
  "state_of (last (retireDeploy ds r now)) (refKey r) = Some RETIRED"
  by (simp add: retireDeploy_def Let_def state_of_setState)

text \<open>
  C1, amended. Take a sequence of orchestrator operations, from the empty orchestrator, in
  which every \<open>processDeploy\<close> is of a ref the orchestrator has no status for and
  every \<open>retireDeploy\<close> is of a ref that is neither \<open>RETIRED\<close> nor \<open>FAILED\<close>.
  Then, over all the maps the orchestrator goes through, the state of every deploy only
  moves forward along PENDING, FETCHING, RESOLVING, BUILDING, ACTIVATING, ACTIVE, DRAINING,
  RETIRED, with FAILED reachable from every state but RETIRED, and a deploy that is
  \<open>RETIRED\<close> or \<open>FAILED\<close> keeps its state. The orchestrator itself does not guard
  transitions: whatever the state of its ref, \<open>processDeploy\<close> first sets it to
  \<open>PENDING\<close> and leaves it \<open>ACTIVE\<close>, or \<open>FAILED\<close> when the manifest build
  throws, and \<open>retireDeploy\<close> leaves it \<open>RETIRED\<close>.
\<close>

theorem deploy_states_forward:
  assumes "fresh_ops opts [] xs" and "run_ops opts [] xs = Some tr"
  shows "(\<forall>i j key. i \<le> j \<and> j < length ([] # tr) \<longrightarrow>
            forward_opt (state_of (([] # tr) ! i) key) (state_of (([] # tr) ! j) key))
       \<and> (\<forall>i j key. i \<le> j \<and> j < length ([] # tr)
              \<and> (state_of (([] # tr) ! i) key = Some RETIRED \<or> state_of (([] # tr) ! i) key = Some FAILED) \<longrightarrow>
            state_of (([] # tr) ! j) key = state_of (([] # tr) ! i) key)
       \<and> state_of (hd (processDeploy_steps opts ds r outcome now)) (refKey r) = Some PENDING
       \<and> state_of (last (processDeploy_steps opts ds r outcome now)) (refKey r)
            = Some (case outcome of Inl msg \<Rightarrow> FAILED | Inr m \<Rightarrow> ACTIVE)
       \<and> state_of (last (retireDeploy ds r now)) (refKey r) = Some RETIRED"
proof -
  have wf: "wf_deploys []" by (rule wf_empty)
  have "successively states_forward ([] # tr)"
    using run_ops_fresh_forward [OF wf assms] .
  then have sw: "sorted_wrt states_forward ([] # tr)"
    using successively_conv_sorted_wrt [OF transp_states_forward] by blast
  have fw: "forward_opt (state_of (([] # tr) ! i) key) (state_of (([] # tr) ! j) key)"
    if "i \<le> j" "j < length ([] # tr)" for i j key
  proof (cases "i = j")
    case True
    then show ?thesis by (simp add: forward_opt_refl)
  next
    case False
    with that have "i < j" by simp
    with sw that(2) have "states_forward (([] # tr) ! i) (([] # tr) ! j)"
      by (simp add: sorted_wrt_iff_nth_less)
    then show ?thesis by (simp add: states_forward_def)
  qed
  have tm: "state_of (([] # tr) ! j) key = state_of (([] # tr) ! i) key"
    if "i \<le> j" "j < length ([] # tr)"
      "state_of (([] # tr) ! i) key = Some RETIRED \<or> state_of (([] # tr) ! i) key = Some FAILED"
    for i j key
  proof -
    from that(3) obtain s where s: "state_of (([] # tr) ! i) key = Some s" "s = RETIRED \<or> s = FAILED"
      by auto
    from fw [OF that(1,2), of key] s(1) obtain s' where
      s': "state_of (([] # tr) ! j) key = Some s'" "forward s s'"
      by (cases "state_of (([] # tr) ! j) key") auto
    from forward_terminal [OF s'(2) s(2)] s(1) s'(1) show ?thesis by simp
  qed
  show ?thesis
    using fw tm state_of_processDeploy_hd [of opts ds r outcome now]
      state_of_processDeploy_last [of opts ds r outcome now]
      state_of_retireDeploy_last [of ds r now]
    by blast
qed




























lemma default_fresh_process:
  "fresh_ops default_options ds (ProcessDeploy r avast_record now # xs)
     = (map_of ds (refKey r) = None
        \<and> fresh_ops default_options
            (setState (drain_oldest default_options
               (setState ds r ACTIVATING (Some (avast_manifest r now)) now) now)
               r ACTIVE (Some (avast_manifest r now)) now) xs)"
proof -
  have "processDeploy_steps default_options ds r (Inr (avast_manifest r now)) now \<noteq> []"
    by (simp add: processDeploy_steps_def Let_def)
  then show ?thesis
    by (simp add: default_processDeploy last_processDeploy_steps)
qed

lemma fresh_retire:
  "fresh_ops opts ds (RetireDeploy r now # xs)
     = (state_of ds (refKey r) \<noteq> Some RETIRED \<and> state_of ds (refKey r) \<noteq> Some FAILED
        \<and> fresh_ops opts (setState (setState ds r DRAINING None now) r RETIRED None now) xs)"
  by (simp add: retireDeploy_def Let_def)



text \<open>
  C1, as the claim states it, fails: \<open>RETIRED\<close> is not terminal. After
  \<open>processDeploy\<close> and \<open>retireDeploy\<close> of a deploy, a second \<open>processDeploy\<close> of
  it takes its state from \<open>RETIRED\<close> back to \<open>PENDING\<close> and on to \<open>ACTIVE\<close>.
\<close>

theorem processDeploy_restarts_counterexample:
  "map_option (map (\<lambda>s. state_of s (refKey deploy_A)))
     (run_ops default_options []
        [ProcessDeploy deploy_A avast_record 1, RetireDeploy deploy_A 2,
         ProcessDeploy deploy_A avast_record 3])
   = Some [Some PENDING, Some FETCHING, Some RESOLVING, Some BUILDING, Some ACTIVATING,
           Some ACTIVATING, Some ACTIVE, Some DRAINING, Some RETIRED,
           Some PENDING, Some FETCHING, Some RESOLVING, Some BUILDING, Some ACTIVATING,
           Some ACTIVATING, Some ACTIVE]"
  by (simp add: default_processDeploy processDeploy_steps_def retireDeploy_def Let_def
      state_of_setState state_of_drain_oldest_other wf_setState wf_empty wf_drain_oldest)

theorem deploy_states_forward_witness:
  "fresh_ops default_options []
     [ProcessDeploy deploy_A avast_record 1, ProcessDeploy deploy_B avast_record 2,
      RetireDeploy deploy_A 3]
   \<and> (\<exists>tr. run_ops default_options []
             [ProcessDeploy deploy_A avast_record 1, ProcessDeploy deploy_B avast_record 2,
              RetireDeploy deploy_A 3] = Some tr
         \<and> length tr = 16
         \<and> state_of (tr ! 15) (refKey deploy_A) = Some RETIRED
         \<and> (\<forall>i j key. i \<le> j \<and> j < length ([] # tr) \<longrightarrow>
               forward_opt (state_of (([] # tr) ! i) key) (state_of (([] # tr) ! j) key)))"
proof -
  let ?xs = "[ProcessDeploy deploy_A avast_record 1, ProcessDeploy deploy_B avast_record 2,
      RetireDeploy deploy_A 3]"
  have fr: "fresh_ops default_options [] ?xs"
    unfolding default_fresh_process fresh_retire fresh_ops.simps(1)
    by (simp add: setState_def drain_oldest_def Let_def
        max_active_default refKey_def deploy_A_def deploy_B_def state_of_def)
  obtain tr where tr: "run_ops default_options [] ?xs = Some tr"
    by (simp add: default_processDeploy)
  have len: "length tr = 16"
    using tr by (auto simp: default_processDeploy processDeploy_steps_def retireDeploy_def Let_def)
  have st: "state_of (tr ! 15) (refKey deploy_A) = Some RETIRED"
    using tr by (auto simp: default_processDeploy processDeploy_steps_def retireDeploy_def Let_def
        state_of_setState)
  show ?thesis
    using deploy_states_forward [OF fr tr] fr tr len st by blast
qed



section \<open>Properties of the query engine\<close>

lemma zero_guard: "strict_equal rt (JNum n) (JNum (Finite 0)) = is_zero n"
  by (auto simp: strict_equal_def num_equal_def is_zero_def)

text \<open>
  C5, as the claim states it, fails: with a right operand that evaluates to 0, a division
  whose left operand is a function call does not evaluate to 0. The left operand is
  evaluated first and throws.
\<close>

theorem division_by_zero_counterexample:
  "\<forall>rt. evaluateExpression rt [] (Literal None (Some 0) None) [] = Inr (JNum (Finite 0))
      \<and> evaluateExpression rt []
           (ArithmeticOp ''divide'' (FunctionCall deploy_A []) (Literal None (Some 0) None)) []
         = Inl (Error ''Function calls in expressions not yet supported in sync evaluation'')"
  by simp

text \<open>
  C5, amended. For every \<open>ArithmeticOp\<close> with op \<open>divide\<close> or \<open>modulo\<close>, every row
  and every parameter map: if the right operand evaluates to the number 0 (or -0) and the
  left operand evaluates to a value, the whole expression evaluates to 0, neither
  throwing nor yielding an infinity or \<open>NaN\<close>; if the left operand throws, the
  expression throws the same error.
\<close>

theorem division_by_zero:
  assumes "op = ''divide'' \<or> op = ''modulo''"
    and "evaluateExpression rt params right row = Inr (JNum n)" and "is_zero n"
  shows "(\<forall>l. evaluateExpression rt params left row = Inr l \<longrightarrow>
            evaluateExpression rt params (ArithmeticOp op left right) row = Inr (JNum (Finite 0)))
       \<and> (\<forall>e. evaluateExpression rt params left row = Inl e \<longrightarrow>
            evaluateExpression rt params (ArithmeticOp op left right) row = Inl e)"
  using assms by (auto simp: arithmetic_values_def zero_guard)

theorem division_by_zero_witness:
  "evaluateExpression small_runtime []
      (ArithmeticOp ''divide'' (Literal None (Some 7) None) (Literal None (Some 0) None)) []
     = Inr (JNum (Finite 0))
   \<and> evaluateExpression small_runtime []
      (ArithmeticOp ''modulo'' (Literal None (Some 7) None) (Literal None (Some 0) None)) []
     = Inr (JNum (Finite 0))"
proof -
  have r: "evaluateExpression small_runtime [] (Literal None (Some 0) None) [] = Inr (JNum (Finite 0))"
    by simp
  have l: "evaluateExpression small_runtime [] (Literal None (Some 7) None) [] = Inr (JNum (Finite 7))"
    by simp
  have z: "is_zero (Finite 0)" by (simp add: is_zero_def)
  show ?thesis
    using division_by_zero [OF _ r z, of "''divide''" "Literal None (Some 7) None"]
      division_by_zero [OF _ r z, of "''modulo''" "Literal None (Some 7) None"] l
    by simp
qed

lemma sequence_results_length: "sequence_results rs = Inr vs \<Longrightarrow> length vs = length rs"
proof (induction rs arbitrary: vs)
  case Nil
  then show ?case by simp
next
  case (Cons r rs)
  then show ?case by (cases r) (auto split: sum.splits)
qed

lemma filter_rows_length:
  "filter_rows rt params e rows = Inr rows' \<Longrightarrow> length rows' \<le> length rows"
proof -
  assume a: "filter_rows rt params e rows = Inr rows'"
  then obtain vs where "rows' = map fst (filter (\<lambda>(row, v). truthy v) (zip rows vs))"
    by (auto simp: filter_rows_def split: sum.splits)
  moreover have "length (filter (\<lambda>(row, v). truthy v) (zip rows vs)) \<le> length (zip rows vs)"
    by (rule length_filter_le)
  ultimately show ?thesis by simp
qed

lemma select_rows_length:
  "select_rows rt params fs rows = Inr rows' \<Longrightarrow> length rows' = length rows"
  by (auto simp: select_rows_def dest: sequence_results_length)

lemma distinct_rows_length: "length (distinct_rows rt seen rows) \<le> length rows"
  by (induction rows arbitrary: seen) (auto simp: le_SucI)

lemma insert_sorted_length: "insert_sorted cmp x ys = Inr zs \<Longrightarrow> length zs = Suc (length ys)"
  by (induction ys arbitrary: zs) (auto split: sum.splits if_splits)

lemma sort_with_length: "sort_with cmp xs = Inr ys \<Longrightarrow> length ys = length xs"
  by (induction xs arbitrary: ys) (auto split: sum.splits dest: insert_sorted_length)

lemma js_slice_length: "length (js_slice xs a b) \<le> length xs"
  by (simp add: js_slice_def Let_def)

lemma execute_step_length:
  "size_keeping step \<Longrightarrow> execute_step rt fr dd qp params step rows = Inr rows' \<Longrightarrow>
     length rows' \<le> length rows"
  by (cases step)
     (auto simp: performDistinct_def performOrderBy_def distinct_rows_length js_slice_length
        dest: filter_rows_length select_rows_length sort_with_length)

lemma run_pipeline_length:
  "\<forall>s\<in>set steps. size_keeping s \<Longrightarrow> run_pipeline rt fr dd qp params steps rows = Inr rows' \<Longrightarrow>
     length rows' \<le> length rows"
proof (induction steps arbitrary: rows)
  case Nil
  then show ?case by simp
next
  case (Cons s steps)
  from Cons.prems(2) obtain mid where m: "execute_step rt fr dd qp params s rows = Inr mid"
    "run_pipeline rt fr dd qp params steps mid = Inr rows'"
    by (auto split: sum.splits)
  from execute_step_length [OF _ m(1)] Cons.prems(1) have "length mid \<le> length rows" by simp
  moreover from Cons.IH [OF _ m(2)] Cons.prems(1) have "length rows' \<le> length mid" by simp
  ultimately show ?case by simp
qed


lemma plan_pipeline_no_joins:
  assumes "query_joins q = None \<or> query_joins q = Some []"
    and "query_groupBy q = None \<or> query_groupBy q = Some []"
  shows "\<exists>steps. pipeline (plan q) = Fetch (source_alias (query_from q)) # steps
           \<and> (\<forall>s\<in>set steps. size_keeping s)"
  using assms by (auto simp: plan_def split: option.splits)

lemma plan_sources_find:
  "find (\<lambda>s. plan_alias s = source_alias (query_from q)) (sources (plan q))
     = Some \<lparr>plan_alias = source_alias (query_from q), plan_source = query_from q, isJoined = False\<rparr>"
  by (simp add: plan_def)

lemma assign_all_length_map: "length (map (aliasRow alias) records) = length records"
  by simp

lemma execute_ran_plan:
  "snd (execute eng q params options now) = Inr (rows, cached) \<Longrightarrow>
   caching options = None \<or> \<not> cached \<Longrightarrow>
     executePlan (engine_runtime eng) (dataSource eng) (defaultDid eng) (plan q) params = Inr rows"
  by (auto simp: execute_def Let_def split: option.splits sum.splits)

text \<open>
  C6. For every query with no joins and no grouping and every data source: when
  \<open>QueryEngine.execute\<close> returns rows that it did not take from its cache (always so
  when it is called without \<open>cacheTtl\<close>), the data source returned the records of the
  query's single source, and there are at most as many rows as records. Every step of the
  plan after the fetch (\<open>filter\<close>, \<open>having\<close>, \<open>select\<close>, \<open>distinct\<close>,
  \<open>orderBy\<close>, \<open>limit\<close>) returns at most as many rows as it is given.
\<close>

theorem execute_row_count:
  assumes "query_joins q = None \<or> query_joins q = Some []"
    and "query_groupBy q = None \<or> query_groupBy q = Some []"
    and "snd (execute eng q params options now) = Inr (rows, cached)"
    and "caching options = None \<or> \<not> cached"
  shows "(\<exists>records. dataSource eng (query_from q) (defaultDid eng) = Inr records
           \<and> length rows \<le> length records)
       \<and> (\<forall>step\<in>set (tl (pipeline (plan q))). \<forall>before after.
             execute_step (engine_runtime eng) (dataSource eng) (defaultDid eng) (plan q) params
               step before = Inr after \<longrightarrow> length after \<le> length before)"
proof -
  from plan_pipeline_no_joins [OF assms(1,2)] obtain steps where
    p: "pipeline (plan q) = Fetch (source_alias (query_from q)) # steps"
    "\<forall>s\<in>set steps. size_keeping s" by blast
  let ?rt = "engine_runtime eng" and ?fr = "dataSource eng" and ?dd = "defaultDid eng"
  from execute_ran_plan [OF assms(3,4)]
  have run: "run_pipeline ?rt ?fr ?dd (plan q) params (Fetch (source_alias (query_from q)) # steps) []
      = Inr rows"
    by (simp add: executePlan_def p(1))
  then obtain fetched where f: "fetch_source ?fr ?dd (plan q) (source_alias (query_from q)) = Inr fetched"
    "run_pipeline ?rt ?fr ?dd (plan q) params steps fetched = Inr rows"
    by (auto split: sum.splits)
  from f(1) obtain records where r: "?fr (query_from q) ?dd = Inr records"
    "fetched = map (aliasRow (source_alias (query_from q))) records"
    by (auto simp: fetch_source_def plan_sources_find split: sum.splits)
  from run_pipeline_length [OF p(2) f(2)] r(2) have "length rows \<le> length records" by simp
  with r(1) have one: "\<exists>records. ?fr (query_from q) ?dd = Inr records \<and> length rows \<le> length records"
    by blast
  have two: "\<forall>step\<in>set (tl (pipeline (plan q))). \<forall>before after.
             execute_step ?rt ?fr ?dd (plan q) params step before = Inr after
               \<longrightarrow> length after \<le> length before"
    using p execute_step_length by auto
  from one two show ?thesis by blast
qed

lemma avast_execute:
  "snd (execute avast_engine avast_query [] None 0)
     = Inr ([[(''uri'', JStr ''at://a/2''), (''ayes'', JNum (Finite 3))],
             [(''uri'', JStr ''at://a/3''), (''ayes'', JNum (Finite 2))]], False)"
  by (simp add: execute_def Let_def caching_def executePlan_def plan_def avast_engine_def
      avast_query_def avast_source_def fetch_source_def avast_data_def avast_records_def
      aliasRow_def assign_all_def filter_rows_def select_rows_def select_row_def
      performOrderBy_def getNestedValue_def compare_values_def small_runtime_def finite_rel_def
      truthy_def nullish_def js_slice_def slice_index_def is_positive_def)

theorem execute_row_count_witness:
  "snd (execute avast_engine avast_query [] None 0)
     = Inr ([[(''uri'', JStr ''at://a/2''), (''ayes'', JNum (Finite 3))],
             [(''uri'', JStr ''at://a/3''), (''ayes'', JNum (Finite 2))]], False)
   \<and> dataSource avast_engine (query_from avast_query) (defaultDid avast_engine) = Inr avast_records
   \<and> length avast_records = 3
   \<and> (\<exists>records. dataSource avast_engine (query_from avast_query) (defaultDid avast_engine) = Inr records
          \<and> length [[(''uri'', JStr ''at://a/2''), (''ayes'', JNum (Finite 3))],
                     [(''uri'', JStr ''at://a/3''), (''ayes'', JNum (Finite 2))]] \<le> length records)"
proof -
  have j: "query_joins avast_query = None \<or> query_joins avast_query = Some []"
    by (simp add: avast_query_def)
  have g: "query_groupBy avast_query = None \<or> query_groupBy avast_query = Some []"
    by (simp add: avast_query_def)
  have c: "caching None = None \<or> \<not> False" by simp
  have d: "dataSource avast_engine (query_from avast_query) (defaultDid avast_engine) = Inr avast_records"
    by (simp add: avast_engine_def avast_query_def avast_data_def avast_source_def)
  have n: "length avast_records = 3" by (simp add: avast_records_def)
  show ?thesis
    using execute_row_count [OF j g avast_execute c] avast_execute d n by simp
qed

text \<open>
  C9. For a query whose \<open>limit\<close> is 0 the planner emits the plan of the same query
  without a limit, so \<open>execute\<close> returns what it returns for the query without a
  limit, not zero rows. The pipeline holds a \<open>limit\<close> step exactly when the query's
  \<open>limit\<close> is a number other than 0; the step is then the last one, with the query's
  limit and offset.
\<close>

theorem limit_zero_dropped:
  "(query_limit q = Some 0 \<longrightarrow>
      plan q = plan (q\<lparr>query_limit := None\<rparr>)
    \<and> executePlan rt fr dd (plan q) params = executePlan rt fr dd (plan (q\<lparr>query_limit := None\<rparr>)) params
    \<and> snd (execute eng q params None now) = snd (execute eng (q\<lparr>query_limit := None\<rparr>) params None now))
   \<and> ((\<exists>n off. Limit n off \<in> set (pipeline (plan q))) \<longleftrightarrow> (\<exists>n. query_limit q = Some n \<and> n \<noteq> 0))
   \<and> (\<forall>n. query_limit q = Some n \<and> n \<noteq> 0 \<longrightarrow>
         (\<exists>steps. pipeline (plan q) = steps @ [Limit n (query_offset q)]
            \<and> (\<forall>s\<in>set steps. \<forall>m off. s \<noteq> Limit m off)))"
proof -
  have a: "plan q = plan (q\<lparr>query_limit := None\<rparr>)" if "query_limit q = Some 0"
    using that by (simp add: plan_def)
  have b: "snd (execute eng q params None now) = snd (execute eng (q\<lparr>query_limit := None\<rparr>) params None now)"
    if "query_limit q = Some 0"
    using a [OF that] by (simp add: execute_def Let_def caching_def split: sum.splits)
  have c: "(\<exists>n off. Limit n off \<in> set (pipeline (plan q))) \<longleftrightarrow> (\<exists>n. query_limit q = Some n \<and> n \<noteq> 0)"
  proof (cases "query_limit q")
    case None
    then show ?thesis by (auto simp: plan_def split: option.splits if_splits)
  next
    case (Some n)
    show ?thesis
    proof (cases "n = 0")
      case True
      with Some show ?thesis by (auto simp: plan_def split: option.splits if_splits)
    next
      case False
      with Some have "Limit n (query_offset q) \<in> set (pipeline (plan q))"
        by (simp add: plan_def)
      with Some False show ?thesis by blast
    qed
  qed
  have d: "\<exists>steps. pipeline (plan q) = steps @ [Limit n (query_offset q)]
            \<and> (\<forall>s\<in>set steps. \<forall>m off. s \<noteq> Limit m off)"
    if "query_limit q = Some n" "n \<noteq> 0" for n
    using that by (auto simp: plan_def split: option.splits if_splits)
  show ?thesis using a b c d by auto
qed

theorem limit_zero_dropped_witness:
  "query_limit (avast_query\<lparr>query_limit := Some 0\<rparr>) = Some 0
   \<and> snd (execute avast_engine (avast_query\<lparr>query_limit := Some 0\<rparr>) [] None 0)
     = Inr ([[(''uri'', JStr ''at://a/2''), (''ayes'', JNum (Finite 3))],
             [(''uri'', JStr ''at://a/3''), (''ayes'', JNum (Finite 2))]], False)
   \<and> pipeline (plan avast_query)
       = butlast (pipeline (plan avast_query)) @ [Limit 5 None]"
proof -
  have z: "query_limit (avast_query\<lparr>query_limit := Some 0\<rparr>) = Some 0" by simp
  have e: "snd (execute avast_engine (avast_query\<lparr>query_limit := None\<rparr>) [] None 0)
     = Inr ([[(''uri'', JStr ''at://a/2''), (''ayes'', JNum (Finite 3))],
             [(''uri'', JStr ''at://a/3''), (''ayes'', JNum (Finite 2))]], False)"
    by (simp add: execute_def Let_def caching_def executePlan_def plan_def avast_engine_def
      avast_query_def avast_source_def fetch_source_def avast_data_def avast_records_def
      aliasRow_def assign_all_def filter_rows_def select_rows_def select_row_def
      performOrderBy_def getNestedValue_def compare_values_def small_runtime_def finite_rel_def
      truthy_def nullish_def is_positive_def)
  have l: "query_limit avast_query = Some 5 \<and> (5::int) \<noteq> 0 \<and> query_offset avast_query = None"
    by (simp add: avast_query_def)
  from limit_zero_dropped [of "avast_query\<lparr>query_limit := Some 0\<rparr>" small_runtime avast_data None "[]" avast_engine 0] z e
  have one: "snd (execute avast_engine (avast_query\<lparr>query_limit := Some 0\<rparr>) [] None 0)
     = Inr ([[(''uri'', JStr ''at://a/2''), (''ayes'', JNum (Finite 3))],
             [(''uri'', JStr ''at://a/3''), (''ayes'', JNum (Finite 2))]], False)"
    by simp
  from limit_zero_dropped [of avast_query small_runtime avast_data None "[]" avast_engine 0] l
  obtain steps where "pipeline (plan avast_query) = steps @ [Limit 5 None]" by auto
  then have two: "pipeline (plan avast_query) = butlast (pipeline (plan avast_query)) @ [Limit 5 None]"
    by simp
  show ?thesis using z one two by blast
qed

end
